theory Spec2Isabelle
  imports Complex_Main "HOL-Library.Sublist"
begin

section \<open>Python values and errors\<close>

text \<open>
  The exceptions that the modelled code can raise. \<open>Unmodelled\<close> is not a Python exception:
  it marks an input that this development does not cover (a \<open>%\<close> conversion other than
  \<open>%d\<close> and \<open>%%\<close> in the log directory, or a training limit that is not an integer).
\<close>

datatype error =
    KeyError string
  | IndexError
  | TypeError
  | AttributeError
  | ValueError
  | RuntimeError
  | ZeroDivisionError
  | Unmodelled

section \<open>Decimal digits, \<open>int()\<close> and \<open>%d\<close>\<close>

text \<open>
  Strings are strings of ASCII characters, and the digits are \<open>0\<close> to \<open>9\<close>. (Python's
  \<^verbatim>\<open>\d\<close> and \<open>int\<close> also take the decimal digits of other scripts, which are not
  covered here.)
\<close>

definition is_digit :: "char \<Rightarrow> bool" where
  "is_digit c = (48 \<le> (of_char c :: nat) \<and> (of_char c :: nat) \<le> 57)"

definition digit_char :: "nat \<Rightarrow> char" where
  "digit_char d = char_of (48 + d)"

definition digit_val :: "char \<Rightarrow> nat" where
  "digit_val c = of_char c - 48"

text \<open>\<open>int(s)\<close> on a string of digits (leading zeros allowed).\<close>

definition int_of_digits :: "string \<Rightarrow> nat" where
  "int_of_digits ds = foldl (\<lambda>a c. 10 * a + digit_val c) 0 ds"

text \<open>The decimal digits of a natural number, most significant first.\<close>

fun digits_of :: "nat \<Rightarrow> string" where
  "digits_of n =
     (if n < 10 then [digit_char n] else digits_of (n div 10) @ [digit_char (n mod 10)])"

declare digits_of.simps [simp del]

text \<open>
  \<open>'%<flag><width>d' % n\<close>: the sign counts towards the width; with the \<open>0\<close> flag the
  padding is zeros after the sign, without it blanks before the sign.
\<close>

definition fmt_d :: "bool \<Rightarrow> nat \<Rightarrow> int \<Rightarrow> string" where
  "fmt_d zero w n =
     (let ds = digits_of (nat \<bar>n\<bar>);
          sgn = (if n < 0 then ''-'' else '''');
          padn = w - (length sgn + length ds)
      in if zero then sgn @ replicate padn (CHR ''0'') @ ds
         else replicate padn (CHR '' '') @ sgn @ ds)"

section \<open>The \<open>%\<close> operator on a format string and a tuple of integers\<close>

text \<open>
  Covered: plain characters, \<open>%%\<close>, and \<open>%d\<close> with optional \<open>0\<close> flags and a decimal
  width. Too few or too many arguments raise \<open>TypeError\<close>, as in Python.
\<close>

function percent_format :: "string \<Rightarrow> int list \<Rightarrow> error + string" where
  "percent_format [] args = (if args = [] then Inr [] else Inl TypeError)"
| "percent_format (c # cs) args =
     (if c \<noteq> CHR ''%'' then
        (case percent_format cs args of Inl e \<Rightarrow> Inl e | Inr r \<Rightarrow> Inr (c # r))
      else
        (case cs of
           [] \<Rightarrow> Inl Unmodelled
         | c' # cs' \<Rightarrow>
             if c' = CHR ''%'' then
               (case percent_format cs' args of Inl e \<Rightarrow> Inl e | Inr r \<Rightarrow> Inr (CHR ''%'' # r))
             else
               (let zs = takeWhile (\<lambda>x. x = CHR ''0'') cs;
                    r1 = dropWhile (\<lambda>x. x = CHR ''0'') cs;
                    wd = takeWhile is_digit r1;
                    r2 = dropWhile is_digit r1
                in case r2 of
                     [] \<Rightarrow> Inl Unmodelled
                   | t # r3 \<Rightarrow>
                       if t \<noteq> CHR ''d'' then Inl Unmodelled
                       else (case args of
                               [] \<Rightarrow> Inl TypeError
                             | a # as \<Rightarrow>
                                 (case percent_format r3 as of
                                    Inl e \<Rightarrow> Inl e
                                  | Inr r \<Rightarrow> Inr (fmt_d (zs \<noteq> []) (int_of_digits wd) a @ r))))))"
  by pat_completeness auto

lemma length_dropWhile_Cons:
  "dropWhile P xs = y # ys \<Longrightarrow> length ys < length xs"
  using length_dropWhile_le [of P xs] by simp

termination percent_format
proof (relation "measure (\<lambda>(s, args). length s)", goal_cases)
  case 1
  show ?case by simp
next
  case (2 c cs args)
  then show ?case by simp
next
  case (3 c cs args c' cs')
  then show ?case by simp
next
  case (4 c cs args c' cs' zs r1 wd r2 t r3 a as)
  from 4 have "dropWhile is_digit (dropWhile (\<lambda>x. x = CHR ''0'') cs) = t # r3"
    by simp
  then have "length r3 < length (dropWhile (\<lambda>x. x = CHR ''0'') cs)"
    by (rule length_dropWhile_Cons)
  also have "\<dots> \<le> length cs"
    by (rule length_dropWhile_le)
  finally show ?case by simp
qed

section \<open>The regular expression of the resume step\<close>

text \<open>
  The pattern \<^verbatim>\<open>iteration-(\d+)-epoch-(\d+).ckpt\<close> is a sequence of items of three kinds:
  literal text, a capturing group of one or more digits, and the dot, which matches any
  character but a newline. \<open>re_match_here\<close> is a backtracking matcher at the start of the
  subject, as Python's \<open>re\<close> is: a \<^verbatim>\<open>\d+\<close> takes the longest run of digits first and
  gives digits back one at a time while the rest of the pattern does not match. It
  returns the captured groups. The subject after the match is not looked at.
\<close>

datatype re_item = Lit string | Digits1 | AnyChar

fun first_some :: "('a \<Rightarrow> 'b option) \<Rightarrow> 'a list \<Rightarrow> 'b option" where
  "first_some f [] = None"
| "first_some f (x # xs) = (case f x of Some y \<Rightarrow> Some y | None \<Rightarrow> first_some f xs)"

fun re_match_here :: "re_item list \<Rightarrow> string \<Rightarrow> string list option" where
  "re_match_here [] s = Some []"
| "re_match_here (Lit l # ps) s =
     (if take (length l) s = l then re_match_here ps (drop (length l) s) else None)"
| "re_match_here (AnyChar # ps) s =
     (case s of
        [] \<Rightarrow> None
      | c # cs \<Rightarrow> if c = CHR 0x0A then None else re_match_here ps cs)"
| "re_match_here (Digits1 # ps) s =
     first_some
       (\<lambda>k. case re_match_here ps (drop k s) of
              None \<Rightarrow> None
            | Some caps \<Rightarrow> Some (take k s # caps))
       (rev [1 ..< Suc (length (takeWhile is_digit s))])"

text \<open>
  \<open>re.findall(p, s)[0]\<close>: the groups of the leftmost match, found by trying every start
  position in turn; \<open>IndexError\<close> when there is no match, since \<open>findall\<close> then returns the
  empty list.
\<close>

fun re_search :: "re_item list \<Rightarrow> string \<Rightarrow> string list option" where
  "re_search ps [] = re_match_here ps []"
| "re_search ps (c # cs) =
     (case re_match_here ps (c # cs) of
        Some caps \<Rightarrow> Some caps
      | None \<Rightarrow> re_search ps cs)"

definition ckpt_pattern :: "re_item list" where
  "ckpt_pattern = [Lit ''iteration-'', Digits1, Lit ''-epoch-'', Digits1, AnyChar, Lit ''ckpt'']"

text \<open>
  Lines 63 to 65 of \<^verbatim>\<open>soptimizer.py\<close>:
  \<^verbatim>\<open>iteration, epoch = re.findall(r'iteration-(\d+)-epoch-(\d+).ckpt', ckpt_file)[0]\<close>
  followed by \<open>int\<close> on both groups. The pattern has two groups, so a match always
  captures two strings.
\<close>

definition parse_ckpt_file :: "string \<Rightarrow> error + (int \<times> int)" where
  "parse_ckpt_file ckpt_file =
     (case re_search ckpt_pattern ckpt_file of
        None \<Rightarrow> Inl IndexError
      | Some caps \<Rightarrow>
          (case caps of
             [iteration, epoch] \<Rightarrow> Inr (int (int_of_digits iteration), int (int_of_digits epoch))
           | _ \<Rightarrow> Inl IndexError))"

section \<open>The checkpoint file name written by \<open>save\<close>\<close>

text \<open>\<open>os.path.join(a, b)\<close> on a POSIX system, for two components.\<close>

definition os_path_join :: "string \<Rightarrow> string \<Rightarrow> string" where
  "os_path_join a b =
     (if b \<noteq> [] \<and> hd b = CHR ''/'' then b
      else if a = [] \<or> last a = CHR ''/'' then a @ b
      else a @ ''/'' @ b)"

text \<open>
  Lines 223 and 224: the template is joined to the log directory first, and the \<open>%\<close>
  operator is applied to the joined path.
\<close>

definition ckpt_filename :: "string \<Rightarrow> int \<Rightarrow> int \<Rightarrow> error + string" where
  "ckpt_filename logdir iteration epoch =
     percent_format (os_path_join logdir ''iteration-%06d-epoch-%04d.ckpt'') [iteration, epoch]"

section \<open>The configuration\<close>

text \<open>
  The configuration is a nested \<open>dict\<close> loaded from YAML. A dictionary is an association
  list with one entry for a key; \<open>map_of\<close> looks a key up.
\<close>

datatype pyval =
    PyNone
  | PyBool bool
  | PyInt int
  | PyFloat real
  | PyStr string
  | PyDict "(string \<times> pyval) list"

type_synonym pydict = "(string \<times> pyval) list"

text \<open>Truth value testing, as \<open>if v:\<close> and \<open>and\<close> do it.\<close>

fun truthy :: "pyval \<Rightarrow> bool" where
  "truthy PyNone = False"
| "truthy (PyBool b) = b"
| "truthy (PyInt n) = (n \<noteq> 0)"
| "truthy (PyFloat x) = (x \<noteq> 0)"
| "truthy (PyStr s) = (s \<noteq> [])"
| "truthy (PyDict d) = (d \<noteq> [])"

text \<open>\<open>v.get(k, default)\<close>: only a dictionary has the method.\<close>

fun py_get :: "pyval \<Rightarrow> string \<Rightarrow> pyval \<Rightarrow> error + pyval" where
  "py_get (PyDict d) k dflt = (case map_of d k of None \<Rightarrow> Inr dflt | Some v \<Rightarrow> Inr v)"
| "py_get _ k dflt = Inl AttributeError"

text \<open>\<open>v[k]\<close> with a string key: \<open>KeyError\<close> on a dictionary without the key.\<close>

fun py_item :: "pyval \<Rightarrow> string \<Rightarrow> error + pyval" where
  "py_item (PyDict d) k = (case map_of d k of None \<Rightarrow> Inl (KeyError k) | Some v \<Rightarrow> Inr v)"
| "py_item _ k = Inl TypeError"

text \<open>Sequencing of steps that may raise.\<close>

definition and_then :: "error + 'a \<Rightarrow> ('a \<Rightarrow> error + 'b) \<Rightarrow> error + 'b" where
  "and_then x f = (case x of Inl e \<Rightarrow> Inl e | Inr v \<Rightarrow> f v)"

text \<open>
  A training limit read from the configuration. The code stores whatever value the
  configuration holds; this development covers the integers (and \<open>bool\<close>, a subclass of
  \<open>int\<close>).
\<close>

fun as_int :: "pyval \<Rightarrow> error + int" where
  "as_int (PyInt n) = Inr n"
| "as_int (PyBool b) = Inr (if b then 1 else 0)"
| "as_int _ = Inl Unmodelled"

text \<open>A number used in arithmetic (\<open>1 - val_split\<close>).\<close>

fun as_number :: "pyval \<Rightarrow> error + real" where
  "as_number (PyInt n) = Inr (of_int n)"
| "as_number (PyBool b) = Inr (if b then 1 else 0)"
| "as_number (PyFloat x) = Inr x"
| "as_number _ = Inl TypeError"

section \<open>Resume handling (lines 59 to 66)\<close>

text \<open>
  \<^verbatim>\<open>if cfg['train'].get('resume') and cfg['model']['ckpt_file']:\<close> evaluates the second
  operand only when the first is true. \<open>re.findall\<close> raises \<open>TypeError\<close> on a subject that
  is not a string.
\<close>

definition resume_counters :: "pydict \<Rightarrow> error + (int \<times> int)" where
  "resume_counters cfg =
     and_then (py_item (PyDict cfg) ''train'') (\<lambda>train.
     and_then (py_get train ''resume'' PyNone) (\<lambda>resume.
       if \<not> truthy resume then Inr (0, 0)
       else
         and_then (py_item (PyDict cfg) ''model'') (\<lambda>model.
         and_then (py_item model ''ckpt_file'') (\<lambda>ckpt_file.
           if \<not> truthy ckpt_file then Inr (0, 0)
           else (case ckpt_file of
                   PyStr s \<Rightarrow> parse_ckpt_file s
                 | _ \<Rightarrow> Inl TypeError)))))"

section \<open>Collaborators\<close>

text \<open>
  The model, the loss, the optimizer, the data set, the data loaders, the logger and
  the clock live outside \<^verbatim>\<open>soptimizer.py\<close>. They are parameters of the development:
  \<open>'m\<close> is the state of the model, \<open>'o\<close> of the optimizer, \<open>'s\<close> of a learning-rate
  scheduler, \<open>'g\<close> of the random generator; \<open>'b\<close> is a batch. Their constructors and
  methods are taken to return normally, with two exceptions:
  \<open>torch.Generator().manual_seed\<close>, which is given the configured seed as it is and may
  refuse it, and the construction of a scheduler from a name found in
  \<open>torch.optim.lr_scheduler\<close>, which may raise.

  A data loader yields \<open>n_batches\<close> batches in a pass (its \<open>len\<close>); the batches of a pass
  depend on the state of the shared generator when the pass begins, and beginning a
  pass advances that state.
\<close>

record ('b, 'g) loader =
  n_batches :: nat
  batch_at :: "'g \<Rightarrow> nat \<Rightarrow> 'b"
  next_gen :: "'g \<Rightarrow> 'g"

definition batches :: "('b, 'g) loader \<Rightarrow> 'g \<Rightarrow> 'b list" where
  "batches l g = map (batch_at l g) [0 ..< n_batches l]"

record ('m, 'o, 's, 'b, 'g) collaborators =
  SirenTrack :: 'm
  dataset_len :: nat
  manual_seed :: "pyval \<Rightarrow> error + 'g"
  randperm :: "nat \<Rightarrow> 'g \<Rightarrow> nat list \<times> 'g"
  DataLoader :: "nat list \<Rightarrow> pyval \<Rightarrow> ('b, 'g) loader"
  optimizer_factory :: 'o
  forward_loss :: "'m \<Rightarrow> 'b \<Rightarrow> real"
  backward_step :: "'m \<Rightarrow> 'o \<Rightarrow> 'b \<Rightarrow> 'm \<times> 'o"
  get_lr :: "'o \<Rightarrow> real"
  has_lr_scheduler :: "string \<Rightarrow> bool"
  make_lr_scheduler :: "string \<Rightarrow> pyval \<Rightarrow> 'o \<Rightarrow> error + 's"
  scheduler_step :: "'s \<Rightarrow> real \<Rightarrow> 'o \<Rightarrow> 's \<times> 'o"
  clock :: "nat \<Rightarrow> real"
  logdir :: string

section \<open>The trainer\<close>

text \<open>
  What the trainer does to its collaborators is kept as a trace of calls: the optimizer
  update of a batch, \<open>logger.record\<close>, \<open>logger.step\<close>, a call of \<open>validate\<close>,
  \<open>scheduler.step\<close>, \<open>model.save_state\<close>, \<open>logger.write\<close> and \<open>logger.close\<close>.
\<close>

datatype cell = CInt int | CFloat real | CNan

datatype event =
    OptStep
  | LogRecord "string list" "cell list"
  | LogStep int
  | Validate
  | SchedulerStep real
  | SaveState string real
  | LogWrite
  | LogClose

record ('m, 'o, 's, 'b, 'g) trainer =
  model :: 'm
  opt :: 'o
  scheduler :: "'s option"
  generator :: 'g
  train_subset :: "nat list"
  val_subset :: "nat list"
  dataloader_train :: "('b, 'g) loader"
  dataloader_val :: "('b, 'g) loader"
  iteration :: int
  epoch :: int
  epoch_max :: int
  iteration_max :: int
  validate_every_iterations :: int
  save_every_iterations :: int
  save_every_epochs :: int
  trace :: "event list"
  ticks :: nat

section \<open>Construction (\<open>SOptimizer.__init__\<close>)\<close>

text \<open>
  \<open>torch.utils.data.random_split(dataset, [1 - v, v], generator)\<close>, as the library
  documents it: each length is the floor of its fraction of the data set, the items left
  over go to the subsets in turn, and the subsets are consecutive slices of a random
  permutation drawn from the generator. A fraction outside \<open>[0, 1]\<close> raises
  \<open>ValueError\<close>. Floating-point numbers are modelled by the reals: \<open>1 - v\<close> and the two
  products are exact here, while the library floors products that were rounded to a
  \<open>float\<close>. The two agree unless a rounded product falls on the other side of an integer
  than the exact one.
\<close>

definition random_split_lengths :: "nat \<Rightarrow> real \<Rightarrow> nat \<times> nat" where
  "random_split_lengths n v =
     (let n1 = nat \<lfloor>real n * (1 - v)\<rfloor>;
          n2 = nat \<lfloor>real n * v\<rfloor>;
          remainder = n - (n1 + n2)
      in (n1 + (remainder + 1) div 2, n2 + remainder div 2))"

definition random_split ::
  "('m, 'o, 's, 'b, 'g) collaborators \<Rightarrow> real \<Rightarrow> 'g \<Rightarrow> error + (nat list \<times> nat list \<times> 'g)" where
  "random_split E v g =
     (if v < 0 \<or> 1 < v then Inl ValueError
      else
        (let (n1, n2) = random_split_lengths (dataset_len E) v;
             (indices, g') = randperm E (n1 + n2) g
         in Inr (take n1 indices, take n2 (drop n1 indices), g')))"

text \<open>Lines 48 to 51: the split of the data set.\<close>

definition split_dataset ::
  "('m, 'o, 's, 'b, 'g) collaborators \<Rightarrow> pydict \<Rightarrow> error + (nat list \<times> nat list \<times> 'g)" where
  "split_dataset E cfg =
     and_then (py_item (PyDict cfg) ''train'') (\<lambda>train.
     and_then (py_get train ''validation_split'' (PyFloat (1 / 10))) (\<lambda>val_split.
     and_then (py_get train ''seed'' (PyInt 0)) (\<lambda>seed.
     and_then (manual_seed E seed) (\<lambda>generator.
     and_then (as_number val_split) (\<lambda>v.
       random_split E v generator)))))"

text \<open>
  Lines 71 to 81: the learning-rate scheduler. When the name is not an attribute of
  \<open>torch.optim.lr_scheduler\<close>, the message of the \<open>RuntimeError\<close> is built from
  \<^verbatim>\<open>lrs["Name"]\<close>, with a capital N, before the error is raised.
\<close>

definition configure_scheduler ::
  "('m, 'o, 's, 'b, 'g) collaborators \<Rightarrow> pydict \<Rightarrow> error + 's option" where
  "configure_scheduler E cfg =
     and_then (py_item (PyDict cfg) ''train'') (\<lambda>train.
     and_then (py_get train ''lr_scheduler'' (PyDict [])) (\<lambda>lrs.
     and_then (py_get lrs ''name'' PyNone) (\<lambda>name.
       if truthy name then
         (case name of
            PyStr nm \<Rightarrow>
              if \<not> has_lr_scheduler E nm then
                and_then (py_item lrs ''Name'') (\<lambda>_. Inl RuntimeError)
              else
                and_then (py_get lrs ''parameters'' (PyDict [])) (\<lambda>lrs_args.
                and_then (make_lr_scheduler E nm lrs_args (optimizer_factory E)) (\<lambda>s.
                  Inr (Some s)))
          | _ \<Rightarrow> Inl TypeError)
       else Inr None)))"

text \<open>Lines 37 and 38: the device.\<close>

definition resolve_device :: "pydict \<Rightarrow> error + unit" where
  "resolve_device cfg =
     and_then (py_get (PyDict cfg) ''device'' PyNone) (\<lambda>device.
       if truthy device then and_then (py_item device ''type'') (\<lambda>_. Inr ())
       else Inr ())"

text \<open>Lines 53 and 54: \<^verbatim>\<open>**cfg['data']['loader']\<close> needs a mapping.\<close>

definition loader_kwargs :: "pydict \<Rightarrow> error + pyval" where
  "loader_kwargs cfg =
     and_then (py_item (PyDict cfg) ''data'') (\<lambda>data.
     and_then (py_item data ''loader'') (\<lambda>kw.
       case kw of PyDict _ \<Rightarrow> Inr kw | _ \<Rightarrow> Inl TypeError))"

definition SOptimizer_init ::
  "('m, 'o, 's, 'b, 'g) collaborators \<Rightarrow> pydict \<Rightarrow> error + ('m, 'o, 's, 'b, 'g) trainer" where
  "SOptimizer_init E cfg =
     and_then (resolve_device cfg) (\<lambda>_.
     and_then (split_dataset E cfg) (\<lambda>(train_idx, val_idx, g).
     and_then (loader_kwargs cfg) (\<lambda>kw.
     and_then (resume_counters cfg) (\<lambda>(it, ep).
     and_then (configure_scheduler E cfg) (\<lambda>sched.
     and_then (py_get (PyDict cfg) ''train'' (PyDict [])) (\<lambda>train_cfg.
     and_then (and_then (py_get train_cfg ''max_epochs'' (PyInt (10 ^ 20))) as_int) (\<lambda>emax.
     and_then (and_then (py_get train_cfg ''max_iterations'' (PyInt (10 ^ 20))) as_int) (\<lambda>imax.
     and_then (and_then (py_get train_cfg ''validate_every_iterations''
                 (PyInt (int (n_batches (DataLoader E train_idx kw))))) as_int) (\<lambda>vei.
     and_then (and_then (py_get train_cfg ''save_every_iterations'' (PyInt (- 1))) as_int) (\<lambda>sei.
     and_then (and_then (py_get train_cfg ''save_every_epochs'' (PyInt (- 1))) as_int) (\<lambda>see.
       Inr \<lparr> model = SirenTrack E,
             opt = optimizer_factory E,
             scheduler = sched,
             generator = g,
             train_subset = train_idx,
             val_subset = val_idx,
             dataloader_train = DataLoader E train_idx kw,
             dataloader_val = DataLoader E val_idx kw,
             iteration = it,
             epoch = ep,
             epoch_max = emax,
             iteration_max = imax,
             validate_every_iterations = vei,
             save_every_iterations = sei,
             save_every_epochs = see,
             trace = [],
             ticks = 0 \<rparr>)))))))))))"

section \<open>\<open>step\<close>, \<open>validate\<close> and \<open>save\<close>\<close>

text \<open>
  \<open>step\<close> runs the model and the criterion on a batch and returns the loss (the target and
  the prediction, which it also returns, are tensors that only the logger reads).
\<close>

definition step ::
  "('m, 'o, 's, 'b, 'g) collaborators \<Rightarrow> ('m, 'o, 's, 'b, 'g) trainer \<Rightarrow> 'b \<Rightarrow> real" where
  "step E t input = forward_loss E (model t) input"

text \<open>\<open>time()\<close>: the next reading of the clock.\<close>

definition time ::
  "('m, 'o, 's, 'b, 'g) collaborators \<Rightarrow> ('m, 'o, 's, 'b, 'g) trainer
     \<Rightarrow> real \<times> ('m, 'o, 's, 'b, 'g) trainer" where
  "time E t = (clock E (ticks t), t\<lparr>ticks := ticks t + 1\<rparr>)"

text \<open>
  Lines 226 to 234. The sum starts at the integer \<open>0\<close>, so with a validation loader of no
  batches the division is \<open>0 / 0\<close> on integers and raises \<open>ZeroDivisionError\<close>. The pair
  returned holds the result and the trainer after the call.
\<close>

definition validate ::
  "('m, 'o, 's, 'b, 'g) collaborators \<Rightarrow> ('m, 'o, 's, 'b, 'g) trainer
     \<Rightarrow> (error + real) \<times> ('m, 'o, 's, 'b, 'g) trainer" where
  "validate E t =
     (let loader = dataloader_val t;
          t' = t\<lparr>generator := next_gen loader (generator t), trace := trace t @ [Validate]\<rparr>;
          val_loss = foldl (\<lambda>acc batch. acc + step E t' batch) 0 (batches loader (generator t))
      in if n_batches loader = 0 then (Inl ZeroDivisionError, t')
         else (Inr (val_loss / real (n_batches loader)), t'))"

text \<open>
  Lines 218 to 224. \<open>len(self.dataloader['train'].dataset)\<close> is the size of the training
  subset. The count is computed before the file name.
\<close>

definition save ::
  "('m, 'o, 's, 'b, 'g) collaborators \<Rightarrow> ('m, 'o, 's, 'b, 'g) trainer \<Rightarrow> real option
     \<Rightarrow> error + ('m, 'o, 's, 'b, 'g) trainer" where
  "save E t count =
     and_then
       (case count of
          None \<Rightarrow>
            if length (train_subset t) = 0 then Inl ZeroDivisionError
            else Inr (real_of_int (iteration t) / real (length (train_subset t)))
        | Some c \<Rightarrow> Inr c)
       (\<lambda>count.
     and_then (ckpt_filename (logdir E) (iteration t) (epoch t)) (\<lambda>filename.
       Inr (t\<lparr>trace := trace t @ [SaveState filename count]\<rparr>)))"

section \<open>\<open>train\<close>\<close>

text \<open>
  The local variables of \<open>train\<close> that live across batches are \<open>twait\<close> and \<open>val_loss\<close>. A
  raised exception is returned with the trainer as it was when the exception was raised.
\<close>

type_synonym ('m, 'o, 's, 'b, 'g) loop_state = "('m, 'o, 's, 'b, 'g) trainer \<times> real \<times> cell"

type_synonym ('m, 'o, 's, 'b, 'g) raised = "error \<times> ('m, 'o, 's, 'b, 'g) trainer"

definition cols :: "string list" where
  "cols = [''iter'', ''epoch'', ''loss'', ''val_loss'', ''lr'', ''ttrain'', ''twait'']"

text \<open>Lines 165 to 185: the update of the parameters and the metric record of a batch.\<close>

definition update_and_log ::
  "('m, 'o, 's, 'b, 'g) collaborators \<Rightarrow> 'b \<Rightarrow> ('m, 'o, 's, 'b, 'g) loop_state
     \<Rightarrow> ('m, 'o, 's, 'b, 'g) loop_state" where
  "update_and_log E batch s =
     (let (t, twait, val_loss) = s;
          t = t\<lparr>iteration := iteration t + 1\<rparr>;
          (now, t) = time E t;
          twait = now - twait;
          (ttrain, t) = time E t;
          loss = step E t batch;
          (m, oo) = backward_step E (model t) (opt t) batch;
          t = t\<lparr>model := m, opt := oo, trace := trace t @ [OptStep]\<rparr>;
          (now, t) = time E t;
          ttrain = now - ttrain;
          vals = [CInt (iteration t), CInt (epoch t), CFloat loss, val_loss,
                  CFloat (get_lr E (opt t)), CFloat ttrain, CFloat twait];
          t = t\<lparr>trace := trace t @ [LogRecord cols vals]\<rparr>;
          (twait, t) = time E t;
          t = t\<lparr>trace := trace t @ [LogStep (iteration t)]\<rparr>
      in (t, twait, val_loss))"

text \<open>Lines 188 to 192.\<close>

definition periodic_validate ::
  "('m, 'o, 's, 'b, 'g) collaborators \<Rightarrow> ('m, 'o, 's, 'b, 'g) loop_state
     \<Rightarrow> ('m, 'o, 's, 'b, 'g) raised + ('m, 'o, 's, 'b, 'g) loop_state" where
  "periodic_validate E s =
     (let (t, twait, val_loss) = s in
      if validate_every_iterations t > 0 \<and> iteration t mod validate_every_iterations t = 0 then
        (case validate E t of
           (Inl e, t') \<Rightarrow> Inl (e, t')
         | (Inr v, t') \<Rightarrow>
             (case scheduler t' of
                None \<Rightarrow> Inr (t', twait, CFloat v)
              | Some sch \<Rightarrow>
                  (let (sch', oo) = scheduler_step E sch v (opt t')
                   in Inr (t'\<lparr>scheduler := Some sch', opt := oo,
                                trace := trace t' @ [SchedulerStep v]\<rparr>, twait, CFloat v))))
      else Inr s)"

text \<open>Lines 195 to 197.\<close>

definition periodic_save ::
  "('m, 'o, 's, 'b, 'g) collaborators \<Rightarrow> ('m, 'o, 's, 'b, 'g) loop_state
     \<Rightarrow> ('m, 'o, 's, 'b, 'g) raised + ('m, 'o, 's, 'b, 'g) loop_state" where
  "periodic_save E s =
     (let (t, twait, val_loss) = s in
      if save_every_iterations t > 0 \<and> iteration t mod save_every_iterations t = 0 then
        (case save E t None of
           Inl e \<Rightarrow> Inl (e, t)
         | Inr t' \<Rightarrow> Inr (t', twait, val_loss))
      else Inr s)"

text \<open>The body of the batch loop up to the test of line 199.\<close>

definition train_batch ::
  "('m, 'o, 's, 'b, 'g) collaborators \<Rightarrow> 'b \<Rightarrow> ('m, 'o, 's, 'b, 'g) loop_state
     \<Rightarrow> ('m, 'o, 's, 'b, 'g) raised + ('m, 'o, 's, 'b, 'g) loop_state" where
  "train_batch E batch s =
     (case periodic_validate E (update_and_log E batch s) of
        Inl r \<Rightarrow> Inl r
      | Inr s' \<Rightarrow> periodic_save E s')"

text \<open>
  Lines 164 to 201: the batch loop. The flag returned is \<open>stop_training\<close>: \<open>True\<close> when
  the loop was left by \<open>break\<close>.
\<close>

fun batch_loop ::
  "('m, 'o, 's, 'b, 'g) collaborators \<Rightarrow> 'b list \<Rightarrow> ('m, 'o, 's, 'b, 'g) loop_state
     \<Rightarrow> ('m, 'o, 's, 'b, 'g) raised + (bool \<times> ('m, 'o, 's, 'b, 'g) loop_state)" where
  "batch_loop E [] s = Inr (False, s)"
| "batch_loop E (batch # rest) s =
     (case train_batch E batch s of
        Inl r \<Rightarrow> Inl r
      | Inr s' \<Rightarrow>
          if iteration_max (fst s') \<le> iteration (fst s') then Inr (True, s')
          else batch_loop E rest s')"

text \<open>
  Lines 207 to 211: the end of an epoch. The count passed to \<open>save\<close> is computed at the
  call site.
\<close>

definition end_of_epoch ::
  "('m, 'o, 's, 'b, 'g) collaborators \<Rightarrow> ('m, 'o, 's, 'b, 'g) trainer
     \<Rightarrow> ('m, 'o, 's, 'b, 'g) raised + ('m, 'o, 's, 'b, 'g) trainer" where
  "end_of_epoch E t0 =
     (let t = t0\<lparr>epoch := epoch t0 + 1\<rparr> in
      if save_every_epochs t * epoch t > 0 \<and> epoch t mod save_every_epochs t = 0 then
        if length (train_subset t) = 0 then Inl (ZeroDivisionError, t)
        else
          (case save E t (Some (real_of_int (iteration t) / real (length (train_subset t)))) of
             Inl e \<Rightarrow> Inl (e, t)
           | Inr t' \<Rightarrow> Inr t')
      else Inr t)"

text \<open>
  What \<open>train\<close> never assigns: the limits, the periods, the loaders and the subsets. The
  epoch loop ends because every turn that does not leave it adds one to \<open>epoch\<close> and leaves
  \<open>epoch_max\<close> alone; the lemmas below say so for each part of its body.
\<close>

definition same_setup ::
  "('m, 'o, 's, 'b, 'g) trainer \<Rightarrow> ('m, 'o, 's, 'b, 'g) trainer \<Rightarrow> bool" where
  "same_setup t t' =
     (epoch_max t' = epoch_max t \<and> iteration_max t' = iteration_max t \<and>
      validate_every_iterations t' = validate_every_iterations t \<and>
      save_every_iterations t' = save_every_iterations t \<and>
      save_every_epochs t' = save_every_epochs t \<and>
      dataloader_train t' = dataloader_train t \<and> dataloader_val t' = dataloader_val t \<and>
      train_subset t' = train_subset t \<and> val_subset t' = val_subset t)"

lemma same_setup_refl: "same_setup t t"
  by (simp add: same_setup_def)

lemma same_setup_trans: "same_setup t t' \<Longrightarrow> same_setup t' t'' \<Longrightarrow> same_setup t t''"
  by (simp add: same_setup_def)

lemma update_and_log_frame:
  "same_setup (fst s) (fst (update_and_log E b s))"
  "epoch (fst (update_and_log E b s)) = epoch (fst s)"
  "iteration (fst (update_and_log E b s)) = iteration (fst s) + 1"
  by (simp_all add: update_and_log_def same_setup_def time_def split_def Let_def)

lemma validate_frame:
  "same_setup t (snd (validate E t))"
  "epoch (snd (validate E t)) = epoch t"
  "iteration (snd (validate E t)) = iteration t"
  "opt (snd (validate E t)) = opt t"
  "model (snd (validate E t)) = model t"
  by (simp_all add: validate_def same_setup_def Let_def)

lemma save_frame:
  assumes "save E t c = Inr t'"
  shows "same_setup t t'" "epoch t' = epoch t" "iteration t' = iteration t"
  using assms
  by (auto simp: save_def and_then_def same_setup_def split: sum.splits option.splits if_splits)

lemma periodic_validate_frame:
  assumes "periodic_validate E s = Inr s'"
  shows "same_setup (fst s) (fst s')" "epoch (fst s') = epoch (fst s)"
        "iteration (fst s') = iteration (fst s)"
proof -
  obtain t tw vl where s: "s = (t, tw, vl)" by (cases s)
  note v = validate_frame [where t = t and E = E]
  show "same_setup (fst s) (fst s')" "epoch (fst s') = epoch (fst s)"
        "iteration (fst s') = iteration (fst s)"
    using assms v unfolding s periodic_validate_def
    by (auto simp: same_setup_def split_def Let_def split: if_splits sum.splits option.splits prod.splits)
qed

lemma periodic_save_frame:
  assumes "periodic_save E s = Inr s'"
  shows "same_setup (fst s) (fst s')" "epoch (fst s') = epoch (fst s)"
        "iteration (fst s') = iteration (fst s)"
  using assms save_frame [where E = E and t = "fst s" and c = None]
  by (auto simp: periodic_save_def split_def Let_def same_setup_refl split: if_splits sum.splits)

lemma train_batch_frame:
  assumes "train_batch E b s = Inr s'"
  shows "same_setup (fst s) (fst s')" "epoch (fst s') = epoch (fst s)"
        "iteration (fst s') = iteration (fst s) + 1"
proof -
  from assms obtain s1 where 1: "periodic_validate E (update_and_log E b s) = Inr s1"
    and 2: "periodic_save E s1 = Inr s'"
    by (auto simp: train_batch_def split: sum.splits)
  show "same_setup (fst s) (fst s')"
    using update_and_log_frame(1) [where s = s and E = E and b = b] periodic_validate_frame(1) [OF 1]
      periodic_save_frame(1) [OF 2]
    by (blast intro: same_setup_trans)
  show "epoch (fst s') = epoch (fst s)"
    using update_and_log_frame(2) [where s = s and E = E and b = b] periodic_validate_frame(2) [OF 1]
      periodic_save_frame(2) [OF 2] by simp
  show "iteration (fst s') = iteration (fst s) + 1"
    using update_and_log_frame(3) [where s = s and E = E and b = b] periodic_validate_frame(3) [OF 1]
      periodic_save_frame(3) [OF 2] by simp
qed

lemma batch_loop_frame:
  assumes "batch_loop E bs s = Inr (stop, s')"
  shows "same_setup (fst s) (fst s') \<and> epoch (fst s') = epoch (fst s)"
  using assms
proof (induction bs arbitrary: s)
  case Nil
  then show ?case by (simp add: same_setup_refl)
next
  case (Cons b bs)
  from Cons.prems obtain s1 where 1: "train_batch E b s = Inr s1"
    by (auto split: sum.splits)
  note f = train_batch_frame [OF 1]
  show ?case
  proof (cases "iteration_max (fst s1) \<le> iteration (fst s1)")
    case True
    with Cons.prems 1 have "s' = s1" by simp
    with f show ?thesis by simp
  next
    case False
    with Cons.prems 1 have "batch_loop E bs s1 = Inr (stop, s')" by simp
    from Cons.IH [OF this] f show ?thesis by (auto intro: same_setup_trans)
  qed
qed

lemma end_of_epoch_frame:
  assumes "end_of_epoch E t = Inr t'"
  shows "same_setup t t'" "epoch t' = epoch t + 1" "iteration t' = iteration t"
proof -
  let ?t1 = "t\<lparr>epoch := epoch t + 1\<rparr>"
  have s1: "same_setup t ?t1" by (simp add: same_setup_def)
  from assms consider "t' = ?t1" | c where "save E ?t1 c = Inr t'"
    by (auto simp: end_of_epoch_def Let_def split: if_splits sum.splits)
  then have "same_setup t t' \<and> epoch t' = epoch t + 1 \<and> iteration t' = iteration t"
  proof cases
    case 1
    then show ?thesis using s1 by simp
  next
    case 2
    from save_frame [OF 2] s1 show ?thesis
      by (auto intro: same_setup_trans)
  qed
  then show "same_setup t t'" "epoch t' = epoch t + 1" "iteration t' = iteration t"
    by simp_all
qed

text \<open>Lines 160 to 211: the epoch loop.\<close>

function epoch_loop ::
  "('m, 'o, 's, 'b, 'g) collaborators \<Rightarrow> ('m, 'o, 's, 'b, 'g) loop_state
     \<Rightarrow> ('m, 'o, 's, 'b, 'g) raised + ('m, 'o, 's, 'b, 'g) loop_state" where
  "epoch_loop E (t, twait, val_loss) =
     (if iteration t < iteration_max t \<and> epoch t < epoch_max t then
        (case batch_loop E (batches (dataloader_train t) (generator t))
                (t\<lparr>generator := next_gen (dataloader_train t) (generator t)\<rparr>, twait, val_loss) of
           Inl r \<Rightarrow> Inl r
         | Inr (stop_training, s') \<Rightarrow>
             if stop_training then Inr s'
             else
               (case end_of_epoch E (fst s') of
                  Inl r \<Rightarrow> Inl r
                | Inr t' \<Rightarrow> epoch_loop E (t', snd s')))
      else Inr (t, twait, val_loss))"
  by pat_completeness auto

termination epoch_loop
proof (relation "measure (\<lambda>(E, t, twait, val_loss). nat (epoch_max t - epoch t))", goal_cases)
  case 1
  show ?case by simp
next
  case (2 E t twait val_loss x2 stop s' t')
  let ?t1 = "t\<lparr>generator := next_gen (dataloader_train t) (generator t)\<rparr>"
  from 2 have b: "batch_loop E (batches (dataloader_train t) (generator t)) (?t1, twait, val_loss)
                  = Inr (stop, s')"
    by simp
  from batch_loop_frame [OF b]
  have 1: "epoch_max (fst s') = epoch_max t" "epoch (fst s') = epoch t"
    by (simp_all add: same_setup_def)
  from 2 have e: "end_of_epoch E (fst s') = Inr t'" by simp
  from end_of_epoch_frame [OF e]
  have 3: "epoch_max t' = epoch_max (fst s')" "epoch t' = epoch (fst s') + 1"
    by (simp_all add: same_setup_def)
  from 2 have "epoch t < epoch_max t" by simp
  with 1 3 show ?case by simp
qed

declare epoch_loop.simps [simp del]

text \<open>
  Lines 155 to 215. \<open>logger.write\<close> and \<open>logger.close\<close> are reached on normal exit of the
  loop only: an exception raised in the loop leaves \<open>train\<close> before them.
\<close>

definition train ::
  "('m, 'o, 's, 'b, 'g) collaborators \<Rightarrow> ('m, 'o, 's, 'b, 'g) trainer
     \<Rightarrow> ('m, 'o, 's, 'b, 'g) raised + ('m, 'o, 's, 'b, 'g) trainer" where
  "train E t0 =
     (let (twait, t) = time E t0 in
      case epoch_loop E (t, twait, CNan) of
        Inl r \<Rightarrow> Inl r
      | Inr (t', _) \<Rightarrow> Inr (t'\<lparr>trace := trace t' @ [LogWrite, LogClose]\<rparr>))"

section \<open>Reading a trace\<close>

text \<open>
  Read off a trace: the number of optimizer updates, the rows of the metric log, the
  number of calls of \<open>validate\<close> and the checkpoints written. \<open>final_trainer\<close> is the
  trainer that a call of \<open>train\<close> leaves behind, whether it returned or raised.
\<close>

definition opt_steps :: "event list \<Rightarrow> nat" where
  "opt_steps tr = length (filter (\<lambda>e. e = OptStep) tr)"

fun log_rows :: "event list \<Rightarrow> (string list \<times> cell list) list" where
  "log_rows [] = []"
| "log_rows (LogRecord c v # es) = (c, v) # log_rows es"
| "log_rows (e # es) = log_rows es"

definition validations :: "event list \<Rightarrow> nat" where
  "validations tr = length (filter (\<lambda>e. e = Validate) tr)"

fun checkpoints :: "event list \<Rightarrow> (string \<times> real) list" where
  "checkpoints [] = []"
| "checkpoints (SaveState f c # es) = (f, c) # checkpoints es"
| "checkpoints (e # es) = checkpoints es"

definition final_trainer ::
  "('m, 'o, 's, 'b, 'g) raised + ('m, 'o, 's, 'b, 'g) trainer \<Rightarrow> ('m, 'o, 's, 'b, 'g) trainer" where
  "final_trainer r = (case r of Inl (e, t) \<Rightarrow> t | Inr t \<Rightarrow> t)"

section \<open>Two states of a run\<close>

text \<open>
  \<open>progress\<close> relates a state of a run, with the value of \<open>val_loss\<close> there, to a later
  state: what the run has added to the trace in between counts one optimizer update and
  one row of seven columns for every iteration, and the rows recorded before the first
  call of \<open>validate\<close> carry the earlier \<open>val_loss\<close>. \<open>within_limits\<close> bounds the counters
  of the later state.
\<close>

definition progress ::
  "('m, 'o, 's, 'b, 'g) trainer \<Rightarrow> cell \<Rightarrow> ('m, 'o, 's, 'b, 'g) trainer \<Rightarrow> cell option \<Rightarrow> bool" where
  "progress t vl t' vl' =
     (same_setup t t' \<and> iteration t \<le> iteration t' \<and> epoch t \<le> epoch t' \<and>
      (\<exists>new. trace t' = trace t @ new \<and>
         int (opt_steps new) = iteration t' - iteration t \<and>
         length (log_rows new) = opt_steps new \<and>
         list_all (\<lambda>(c, v). c = cols \<and> length v = 7) (log_rows new) \<and>
         (vl = CNan \<longrightarrow>
            list_all (\<lambda>(c, v). v ! 3 = CNan) (log_rows (takeWhile (\<lambda>e. e \<noteq> Validate) new))) \<and>
         (Validate \<notin> set new \<longrightarrow> vl' = None \<or> vl' = Some vl)))"

definition within_limits ::
  "('m, 'o, 's, 'b, 'g) trainer \<Rightarrow> ('m, 'o, 's, 'b, 'g) trainer \<Rightarrow> bool" where
  "within_limits t t' =
     (iteration t' \<le> max (iteration t) (iteration_max t) \<and>
      epoch t' \<le> max (epoch t) (epoch_max t))"


section \<open>A concrete set of collaborators\<close>

text \<open>
  Stand-ins for the collaborators, for the concrete runs below: a data set of \<open>n\<close>
  samples, a generator that counts its draws and is seeded by an integer of the range
  \<open>-2^63 \<dots> 2^64 - 1\<close> and by nothing else, the identity as the random permutation, a
  loader that cuts its subset into consecutive batches of \<open>batch_size\<close> samples and keeps
  a last, shorter batch (the defaults of \<open>torch.utils.data.DataLoader\<close>), a loss that is
  the number of samples of the batch, and \<open>ReduceLROnPlateau\<close> as the only scheduler.
\<close>

definition toy_loader :: "nat \<Rightarrow> nat list \<Rightarrow> (nat list, nat) loader" where
  "toy_loader bs idx =
     \<lparr> n_batches = (length idx + bs - 1) div bs,
       batch_at = (\<lambda>g k. take bs (drop (k * bs) idx)),
       next_gen = Suc \<rparr>"

definition toy_batch_size :: "pyval \<Rightarrow> nat" where
  "toy_batch_size kw =
     (case kw of
        PyDict d \<Rightarrow> (case map_of d ''batch_size'' of Some (PyInt n) \<Rightarrow> nat n | _ \<Rightarrow> 1)
      | _ \<Rightarrow> 1)"

definition toy :: "nat \<Rightarrow> (nat, nat, unit, nat list, nat) collaborators" where
  "toy n =
     \<lparr> SirenTrack = 0,
       dataset_len = n,
       manual_seed =
         (\<lambda>seed. case seed of
                  PyInt k \<Rightarrow>
                    if - (2 ^ 63) \<le> k \<and> k < 2 ^ 64 then Inr (nat \<bar>k\<bar>) else Inl ValueError
                | _ \<Rightarrow> Inl RuntimeError),
       randperm = (\<lambda>k g. ([0 ..< k], Suc g)),
       DataLoader = (\<lambda>idx kw. toy_loader (toy_batch_size kw) idx),
       optimizer_factory = 0,
       forward_loss = (\<lambda>m b. real (length b)),
       backward_step = (\<lambda>m oo b. (Suc m, Suc oo)),
       get_lr = (\<lambda>oo. 1 / 1000),
       has_lr_scheduler = (\<lambda>nm. nm = ''ReduceLROnPlateau''),
       make_lr_scheduler = (\<lambda>nm args oo. Inr ()),
       scheduler_step = (\<lambda>s v oo. (s, oo)),
       clock = real,
       logdir = ''logs'' \<rparr>"

text \<open>Configurations used by the concrete runs.\<close>

definition cfg100 :: pydict where
  "cfg100 =
     [(''train'', PyDict [(''validate_every_iterations'', PyInt 10), (''max_iterations'', PyInt 10),
                          (''save_every_iterations'', PyInt (- 1))]),
      (''data'', PyDict [(''loader'', PyDict [(''batch_size'', PyInt 10)])])]"

definition cfg_no_validation :: pydict where
  "cfg_no_validation =
     [(''train'', PyDict [(''validation_split'', PyInt 0)]),
      (''data'', PyDict [(''loader'', PyDict [(''batch_size'', PyInt 10)])])]"

definition cfg_resume_no_ckpt :: pydict where
  "cfg_resume_no_ckpt =
     [(''train'', PyDict [(''resume'', PyBool True)]),
      (''model'', PyDict []),
      (''data'', PyDict [(''loader'', PyDict [(''batch_size'', PyInt 10)])])]"


definition cfg_resume :: "string \<Rightarrow> pydict" where
  "cfg_resume ckpt_file =
     [(''train'', PyDict [(''resume'', PyBool True)]),
      (''model'', PyDict [(''ckpt_file'', PyStr ckpt_file)]),
      (''data'', PyDict [(''loader'', PyDict [(''batch_size'', PyInt 10)])])]"

definition cfg_seeded :: "int \<Rightarrow> int \<Rightarrow> pydict" where
  "cfg_seeded seed max_iterations =
     [(''train'', PyDict [(''seed'', PyInt seed), (''max_iterations'', PyInt max_iterations)]),
      (''data'', PyDict [(''loader'', PyDict [(''batch_size'', PyInt 10)])])]"



text \<open>
  Four training samples in batches of two, a limit of three iterations, a validation
  and a checkpoint every second iteration and a checkpoint at the end of every epoch.
\<close>

definition small_trainer :: "(nat, nat, unit, nat list, nat) trainer" where
  "small_trainer =
     \<lparr> model = 0, opt = 0, scheduler = Some (), generator = 1,
       train_subset = [0, 1, 2, 3], val_subset = [4, 5],
       dataloader_train = toy_loader 2 [0, 1, 2, 3],
       dataloader_val = toy_loader 2 [4, 5],
       iteration = 0, epoch = 0, epoch_max = 5, iteration_max = 3,
       validate_every_iterations = 2, save_every_iterations = 2, save_every_epochs = 1,
       trace = [], ticks = 0 \<rparr>"

section \<open>Facts about digits and the file name\<close>






lemma digits_of_not_Nil: "digits_of n \<noteq> []"
  by (subst digits_of.simps) simp

















section \<open>Matches that begin in the log directory\<close>











section \<open>Facts about construction\<close>

lemma and_then_Inl: "and_then (Inl e) f = Inl e"
  by (simp add: and_then_def)

lemma and_then_Inr: "and_then (Inr v) f = f v"
  by (simp add: and_then_def)

lemma and_then_eq_Inr:
  "and_then x f = Inr y \<longleftrightarrow> (\<exists>v. x = Inr v \<and> f v = Inr y)"
  by (cases x) (simp_all add: and_then_def)

lemma SOptimizer_init_counters:
  assumes "SOptimizer_init E cfg = Inr t"
  shows "resume_counters cfg = Inr (iteration t, epoch t)"
  using assms by (auto simp: SOptimizer_init_def and_then_eq_Inr split_def)


lemma SOptimizer_init_split:
  assumes "SOptimizer_init E cfg = Inr t"
  shows "\<exists>g. split_dataset E cfg = Inr (train_subset t, val_subset t, g)"
  using assms by (auto simp: SOptimizer_init_def and_then_eq_Inr split_def)




text \<open>A trainer that construction returns has counters that are not negative and an empty trace.\<close>

lemma parse_ckpt_file_nonneg:
  assumes "parse_ckpt_file s = Inr (i, e)"
  shows "0 \<le> i \<and> 0 \<le> e"
  using assms by (auto simp: parse_ckpt_file_def split: option.splits list.splits)

lemma resume_counters_nonneg:
  assumes "resume_counters cfg = Inr (i, e)"
  shows "0 \<le> i \<and> 0 \<le> e"
proof -
  from assms obtain train where 1: "and_then (py_get train ''resume'' PyNone) (\<lambda>resume.
       if \<not> truthy resume then Inr (0, 0)
       else
         and_then (py_item (PyDict cfg) ''model'') (\<lambda>model.
         and_then (py_item model ''ckpt_file'') (\<lambda>ckpt_file.
           if \<not> truthy ckpt_file then Inr (0, 0)
           else (case ckpt_file of
                   PyStr s \<Rightarrow> parse_ckpt_file s
                 | _ \<Rightarrow> Inl TypeError)))) = Inr (i, e)"
    unfolding resume_counters_def by (subst (asm) and_then_eq_Inr) blast
  then obtain resume where 2: "(if \<not> truthy resume then Inr (0, 0)
       else
         and_then (py_item (PyDict cfg) ''model'') (\<lambda>model.
         and_then (py_item model ''ckpt_file'') (\<lambda>ckpt_file.
           if \<not> truthy ckpt_file then Inr (0, 0)
           else (case ckpt_file of
                   PyStr s \<Rightarrow> parse_ckpt_file s
                 | _ \<Rightarrow> Inl TypeError)))) = Inr (i, e)"
    by (subst (asm) and_then_eq_Inr) blast
  show ?thesis
  proof (cases "truthy resume")
    case False
    with 2 show ?thesis by simp
  next
    case True
    with 2 have "and_then (py_item (PyDict cfg) ''model'') (\<lambda>model.
         and_then (py_item model ''ckpt_file'') (\<lambda>ckpt_file.
           if \<not> truthy ckpt_file then Inr (0, 0)
           else (case ckpt_file of
                   PyStr s \<Rightarrow> parse_ckpt_file s
                 | _ \<Rightarrow> Inl TypeError))) = Inr (i, e)" by simp
    then obtain model where "and_then (py_item model ''ckpt_file'') (\<lambda>ckpt_file.
           if \<not> truthy ckpt_file then Inr (0, 0)
           else (case ckpt_file of
                   PyStr s \<Rightarrow> parse_ckpt_file s
                 | _ \<Rightarrow> Inl TypeError)) = Inr (i, e)"
      by (subst (asm) and_then_eq_Inr) blast
    then obtain ckpt_file where 3: "(if \<not> truthy ckpt_file then Inr (0, 0)
           else (case ckpt_file of
                   PyStr s \<Rightarrow> parse_ckpt_file s
                 | _ \<Rightarrow> Inl TypeError)) = Inr (i, e)"
      by (subst (asm) and_then_eq_Inr) blast
    show ?thesis
    proof (cases "truthy ckpt_file")
      case False
      with 3 show ?thesis by simp
    next
      case True
      with 3 obtain s where "parse_ckpt_file s = Inr (i, e)"
        by (cases ckpt_file) simp_all
      then show ?thesis by (rule parse_ckpt_file_nonneg)
    qed
  qed
qed

lemma SOptimizer_init_fresh:
  assumes "SOptimizer_init E cfg = Inr t"
  shows "0 \<le> iteration t \<and> 0 \<le> epoch t \<and> trace t = []"
proof -
  from SOptimizer_init_counters [OF assms] resume_counters_nonneg
  have "0 \<le> iteration t \<and> 0 \<le> epoch t" by blast
  moreover have "trace t = []"
    using assms by (auto simp: SOptimizer_init_def and_then_eq_Inr split_def)
  ultimately show ?thesis by simp
qed

section \<open>C4: the checkpoint file name is a round trip\<close>



text \<open>
  The resume parsing reads the leftmost match of the whole path. When the log directory
  itself holds a match, that match is the one read.
\<close>

lemma resume_reads_directory_first:
  "and_then (ckpt_filename ''iteration-1-epoch-2.ckpt'' 123 4) parse_ckpt_file = Inr (1, 2)"
  by code_simp




section \<open>C1: resume parsing\<close>

text \<open>
  Claim C1 has two halves. With \<open>train.resume\<close> true and the checkpoint file
  \<^verbatim>\<open>iteration-000123-epoch-0004.ckpt\<close>, construction sets \<open>iteration = 123\<close> and
  \<open>epoch = 4\<close>: this is \<open>resume_conforming_name\<close>. A file name without a match of the
  pattern makes construction fail with \<open>IndexError\<close>: this is \<open>resume_no_match\<close>. But the dot
  before \<open>ckpt\<close> is not escaped in the pattern of line 63, so it stands for any character:
  the file name \<^verbatim>\<open>iteration-000123-epoch-0004xckpt\<close>, which is not of the form
  \<open>iteration-<digits>-epoch-<digits>.ckpt\<close>, is accepted, and construction completes with
  the counters \<open>(123, 4)\<close>. The theorem evaluates the code at that file name.
\<close>

theorem resume_accepts_other_separator:
  "resume_counters (cfg_resume ''iteration-000123-epoch-0004xckpt'') = Inr (123, 4) \<and>
   (case SOptimizer_init (toy 20) (cfg_resume ''iteration-000123-epoch-0004xckpt'') of
      Inl e \<Rightarrow> False
    | Inr t \<Rightarrow> iteration t = 123 \<and> epoch t = 4)"
  by code_simp

text \<open>
  The same slip lets the dot take a digit of the epoch: a \<^verbatim>\<open>\d+\<close> gives its last digit
  back when \<open>ckpt\<close> follows the digits directly.
\<close>

lemma resume_conforming_name:
  "resume_counters (cfg_resume ''iteration-000123-epoch-0004.ckpt'') = Inr (123, 4) \<and>
   (case SOptimizer_init (toy 20) (cfg_resume ''iteration-000123-epoch-0004.ckpt'') of
      Inl e \<Rightarrow> False
    | Inr t \<Rightarrow> iteration t = 123 \<and> epoch t = 4)"
  by code_simp

lemma resume_digit_before_ckpt:
  "resume_counters (cfg_resume ''iteration-000123-epoch-00045ckpt'') = Inr (123, 4)"
  by code_simp

lemma resume_no_match:
  assumes "re_search ckpt_pattern s = None" "s \<noteq> []"
  shows "resume_counters (cfg_resume s) = Inl IndexError"
    and "\<exists>e. SOptimizer_init E (cfg_resume s) = Inl e"
proof -
  show r: "resume_counters (cfg_resume s) = Inl IndexError"
    using assms
    by (simp add: resume_counters_def cfg_resume_def and_then_def parse_ckpt_file_def)
  show "\<exists>e. SOptimizer_init E (cfg_resume s) = Inl e"
    using r by (auto simp: SOptimizer_init_def and_then_def split: sum.splits prod.splits)
qed

section \<open>C6: \<open>validate\<close>\<close>

lemma foldl_add_sum_list:
  "foldl (\<lambda>acc x. acc + f x) (a::real) xs = a + sum_list (map f xs)"
  by (induction xs arbitrary: a) simp_all

text \<open>
  Claim C6, amended. In every state of the trainer, \<open>validate\<close> leaves \<open>iteration\<close>,
  \<open>epoch\<close>, the optimizer, the model and the scheduler as they were. When the validation
  loader has at least one batch, it returns the sum of the losses of the batches of one
  pass divided by the number of batches; when the loader has no batch, it raises
  \<open>ZeroDivisionError\<close>.
\<close>

theorem validate_mean_and_frame:
  "iteration (snd (validate E t)) = iteration t \<and>
   epoch (snd (validate E t)) = epoch t \<and>
   opt (snd (validate E t)) = opt t \<and>
   model (snd (validate E t)) = model t \<and>
   scheduler (snd (validate E t)) = scheduler t \<and>
   fst (validate E t) =
     (if n_batches (dataloader_val t) = 0 then Inl ZeroDivisionError
      else Inr (sum_list (map (forward_loss E (model t)) (batches (dataloader_val t) (generator t)))
                / real (n_batches (dataloader_val t))))"
  by (simp add: validate_def Let_def step_def foldl_add_sum_list)

text \<open>
  The claim as stated promises a mean in every state. With \<open>validation_split: 0\<close> the
  validation subset is empty, the loader has no batch, and \<open>validate\<close> raises.
\<close>

theorem validate_empty_loader_counterexample:
  "case SOptimizer_init (toy 20) cfg_no_validation of
     Inl e \<Rightarrow> False
   | Inr t \<Rightarrow> n_batches (dataloader_val t) = 0 \<and> fst (validate (toy 20) t) = Inl ZeroDivisionError"
  by code_simp

section \<open>C8: no resume, counters at zero\<close>

text \<open>
  Claim C8, amended. For every configuration whose \<open>train\<close> namespace has no \<open>resume\<close>
  entry or a false one, or whose \<open>model\<close> namespace has a \<open>ckpt_file\<close> entry that is empty
  or \<open>None\<close>, the resume step raises nothing and gives the counters \<open>(0, 0)\<close>, and every
  construction that completes has \<open>iteration = 0\<close> and \<open>epoch = 0\<close>.
\<close>

theorem no_resume_counters_zero:
  assumes "map_of cfg ''train'' = Some (PyDict train_cfg)"
      and "(case map_of train_cfg ''resume'' of None \<Rightarrow> True | Some r \<Rightarrow> \<not> truthy r) \<or>
           (\<exists>model_cfg ckpt_file. map_of cfg ''model'' = Some (PyDict model_cfg) \<and>
              map_of model_cfg ''ckpt_file'' = Some ckpt_file \<and> \<not> truthy ckpt_file)"
  shows "resume_counters cfg = Inr (0, 0) \<and>
         (\<forall>t. SOptimizer_init E cfg = Inr t \<longrightarrow> iteration t = 0 \<and> epoch t = 0)"
proof -
  have r: "resume_counters cfg = Inr (0, 0)"
    using assms
    by (auto simp: resume_counters_def and_then_def split: option.splits)
  show ?thesis
  proof (intro conjI allI impI)
    show "resume_counters cfg = Inr (0, 0)" by (rule r)
  next
    fix t assume "SOptimizer_init E cfg = Inr t"
    from SOptimizer_init_counters [OF this] r
    show "iteration t = 0" "epoch t = 0" by simp_all
  qed
qed

theorem no_resume_counters_zero_witness:
  "map_of cfg100 ''train'' \<noteq> None \<and> resume_counters cfg100 = Inr (0, 0) \<and>
   (case SOptimizer_init (toy 100) cfg100 of
      Inl e \<Rightarrow> False
    | Inr t \<Rightarrow> iteration t = 0 \<and> epoch t = 0)"
proof -
  have h1: "map_of cfg100 ''train'' =
      Some (PyDict [(''validate_every_iterations'', PyInt 10), (''max_iterations'', PyInt 10),
                    (''save_every_iterations'', PyInt (- 1))])"
    by (simp add: cfg100_def)
  note th = no_resume_counters_zero [where E = "toy 100", OF h1]
  have a: "resume_counters cfg100 = Inr (0, 0)"
   and b: "\<forall>t. SOptimizer_init (toy 100) cfg100 = Inr t \<longrightarrow> iteration t = 0 \<and> epoch t = 0"
    using th by simp_all
  have c: "\<not> isl (SOptimizer_init (toy 100) cfg100)" by code_simp
  show ?thesis
    using h1 a b c by (cases "SOptimizer_init (toy 100) cfg100") auto
qed

text \<open>
  The claim as stated includes the configuration with \<open>resume\<close> true and no \<open>ckpt_file\<close>
  entry at all. Line 60 subscripts \<^verbatim>\<open>cfg['model']['ckpt_file']\<close>, so construction raises
  \<open>KeyError\<close> there.
\<close>

theorem resume_without_ckpt_file_counterexample:
  "resume_counters cfg_resume_no_ckpt = Inl (KeyError ''ckpt_file'') \<and>
   (case SOptimizer_init (toy 20) cfg_resume_no_ckpt of
      Inl e \<Rightarrow> e = KeyError ''ckpt_file''
    | Inr t \<Rightarrow> False)"
  by code_simp

section \<open>C7: the name of the learning-rate scheduler\<close>




section \<open>C9: the split is determined by the seed\<close>

text \<open>
  Claim C9. The random generator and the permutation are the library's; here they are
  functions of the collaborators. Two constructions, from configurations that may differ
  everywhere but in \<open>train.seed\<close> and \<open>train.validation_split\<close>, and with collaborators that
  may differ everywhere but in the size of the data set and in the generator, split the
  data set into the same training and validation indices.
\<close>

theorem split_determined_by_seed:
  assumes "map_of cfg1 ''train'' = Some (PyDict tr1)" "map_of cfg2 ''train'' = Some (PyDict tr2)"
      and "map_of tr1 ''seed'' = map_of tr2 ''seed''"
      and "map_of tr1 ''validation_split'' = map_of tr2 ''validation_split''"
      and "dataset_len E1 = dataset_len E2" "manual_seed E1 = manual_seed E2"
          "randperm E1 = randperm E2"
  shows "split_dataset E1 cfg1 = split_dataset E2 cfg2 \<and>
         (\<forall>t1 t2. SOptimizer_init E1 cfg1 = Inr t1 \<and> SOptimizer_init E2 cfg2 = Inr t2 \<longrightarrow>
            train_subset t1 = train_subset t2 \<and> val_subset t1 = val_subset t2)"
proof -
  have i1: "py_item (PyDict cfg1) ''train'' = Inr (PyDict tr1)"
   and i2: "py_item (PyDict cfg2) ''train'' = Inr (PyDict tr2)"
    using assms(1,2) by simp_all
  have g1: "py_get (PyDict tr1) ''seed'' (PyInt 0) = py_get (PyDict tr2) ''seed'' (PyInt 0)"
    using assms(3) by simp
  have g2: "py_get (PyDict tr1) ''validation_split'' (PyFloat (1 / 10))
            = py_get (PyDict tr2) ''validation_split'' (PyFloat (1 / 10))"
    using assms(4) by simp
  have s: "split_dataset E1 cfg1 = split_dataset E2 cfg2"
    unfolding split_dataset_def random_split_def i1 i2 and_then_Inr g1 g2
      assms(5) assms(6) assms(7) ..
  show ?thesis
  proof (intro conjI allI impI)
    show "split_dataset E1 cfg1 = split_dataset E2 cfg2" by (rule s)
  next
    fix t1 t2
    assume a: "SOptimizer_init E1 cfg1 = Inr t1 \<and> SOptimizer_init E2 cfg2 = Inr t2"
    from a have a1: "SOptimizer_init E1 cfg1 = Inr t1" and a2: "SOptimizer_init E2 cfg2 = Inr t2"
      by simp_all
    from SOptimizer_init_split [OF a1]
    obtain g1 where "split_dataset E1 cfg1 = Inr (train_subset t1, val_subset t1, g1)" ..
    moreover from SOptimizer_init_split [OF a2]
    obtain g2 where "split_dataset E2 cfg2 = Inr (train_subset t2, val_subset t2, g2)" ..
    ultimately have "train_subset t1 = train_subset t2 \<and> val_subset t1 = val_subset t2"
      using s by simp
    then show "train_subset t1 = train_subset t2" "val_subset t1 = val_subset t2" by simp_all
  qed
qed

theorem split_determined_by_seed_witness:
  "split_dataset (toy 20) (cfg_seeded 7 10) = split_dataset (toy 20) (cfg_seeded 7 500) \<and>
   split_dataset (toy 20) (cfg_seeded 7 10) = Inr ([0 ..< 18], [18, 19], 8)"
proof -
  have a: "map_of (cfg_seeded 7 10) ''train''
           = Some (PyDict [(''seed'', PyInt 7), (''max_iterations'', PyInt 10)])"
   and b: "map_of (cfg_seeded 7 500) ''train''
           = Some (PyDict [(''seed'', PyInt 7), (''max_iterations'', PyInt 500)])"
    by (simp_all add: cfg_seeded_def)
  have "split_dataset (toy 20) (cfg_seeded 7 10) = split_dataset (toy 20) (cfg_seeded 7 500)"
    using split_determined_by_seed [where ?E1.0 = "toy 20" and ?E2.0 = "toy 20", OF a b]
    by simp
  moreover have "split_dataset (toy 20) (cfg_seeded 7 10) = Inr ([0 ..< 18], [18, 19], 8)"
    by code_simp
  ultimately show ?thesis by simp
qed

section \<open>C10: the count of the save at the end of an epoch\<close>

text \<open>
  Claim C10. The count that line 211 computes and passes to \<open>save\<close> is the count that
  \<open>save\<close> computes when it is called without one: in every state, the call of line 211
  does what a call of \<open>save\<close> with no argument does, a \<open>ZeroDivisionError\<close> on an empty
  training subset included.
\<close>

theorem epoch_save_count_is_default:
  "(if length (train_subset t) = 0 then Inl ZeroDivisionError
    else save E t (Some (real_of_int (iteration t) / real (length (train_subset t)))))
   = save E t None \<and>
   end_of_epoch E t0 =
     (let t = t0\<lparr>epoch := epoch t0 + 1\<rparr> in
      if save_every_epochs t * epoch t > 0 \<and> epoch t mod save_every_epochs t = 0 then
        (case save E t None of Inl e \<Rightarrow> Inl (e, t) | Inr t' \<Rightarrow> Inr t')
      else Inr t)"
  by (simp add: save_def and_then_def end_of_epoch_def Let_def)

section \<open>Facts about runs\<close>

lemma opt_steps_append [simp]: "opt_steps (a @ b) = opt_steps a + opt_steps b"
  by (simp add: opt_steps_def)

lemma log_rows_append [simp]: "log_rows (a @ b) = log_rows a @ log_rows b"
  by (induction a rule: log_rows.induct) simp_all

lemma validations_append [simp]: "validations (a @ b) = validations a + validations b"
  by (simp add: validations_def)

lemma checkpoints_append [simp]: "checkpoints (a @ b) = checkpoints a @ checkpoints b"
  by (induction a rule: checkpoints.induct) simp_all

lemma progressI:
  assumes "same_setup t t'" "trace t' = trace t @ new"
    "iteration t' = iteration t + int (opt_steps new)" "epoch t \<le> epoch t'"
    "length (log_rows new) = opt_steps new"
    "list_all (\<lambda>(c, v). c = cols \<and> length v = 7) (log_rows new)"
    "vl = CNan \<Longrightarrow> list_all (\<lambda>(c, v). v ! 3 = CNan) (log_rows (takeWhile (\<lambda>e. e \<noteq> Validate) new))"
    "Validate \<notin> set new \<Longrightarrow> vl' = None \<or> vl' = Some vl"
  shows "progress t vl t' vl'"
  unfolding progress_def using assms by auto

lemma progress_refl: "progress t vl t (Some vl)"
  by (rule progressI [where new = "[]"]) (simp_all add: same_setup_refl opt_steps_def)

lemma progress_silent:
  assumes "same_setup t t'" "trace t' = trace t" "iteration t' = iteration t" "epoch t \<le> epoch t'"
  shows "progress t vl t' (Some vl)"
  by (rule progressI [where new = "[]"]) (use assms in \<open>simp_all add: opt_steps_def\<close>)

lemma progress_weaken: "progress t vl t' vl' \<Longrightarrow> progress t vl t' None"
  unfolding progress_def by auto

lemma takeWhile_append_cases:
  "takeWhile P (a @ b) = (if \<forall>x \<in> set a. P x then a @ takeWhile P b else takeWhile P a)"
  by (induction a) auto

lemma progress_trans:
  assumes 1: "progress t vl t1 (Some vl1)" and 2: "progress t1 vl1 t2 vl2"
  shows "progress t vl t2 vl2"
proof -
  from 1 obtain n1 where n1: "trace t1 = trace t @ n1"
      "int (opt_steps n1) = iteration t1 - iteration t"
      "length (log_rows n1) = opt_steps n1"
      "list_all (\<lambda>(c, v). c = cols \<and> length v = 7) (log_rows n1)"
      "vl = CNan \<longrightarrow> list_all (\<lambda>(c, v). v ! 3 = CNan) (log_rows (takeWhile (\<lambda>e. e \<noteq> Validate) n1))"
      "Validate \<notin> set n1 \<longrightarrow> vl1 = vl"
    and s1: "same_setup t t1" "iteration t \<le> iteration t1" "epoch t \<le> epoch t1"
    unfolding progress_def by auto
  from 2 obtain n2 where n2: "trace t2 = trace t1 @ n2"
      "int (opt_steps n2) = iteration t2 - iteration t1"
      "length (log_rows n2) = opt_steps n2"
      "list_all (\<lambda>(c, v). c = cols \<and> length v = 7) (log_rows n2)"
      "vl1 = CNan \<longrightarrow> list_all (\<lambda>(c, v). v ! 3 = CNan) (log_rows (takeWhile (\<lambda>e. e \<noteq> Validate) n2))"
      "Validate \<notin> set n2 \<longrightarrow> vl2 = None \<or> vl2 = Some vl1"
    and s2: "same_setup t1 t2" "iteration t1 \<le> iteration t2" "epoch t1 \<le> epoch t2"
    unfolding progress_def by auto
  show ?thesis
  proof (rule progressI [where new = "n1 @ n2"])
    show "same_setup t t2" using s1 s2 by (blast intro: same_setup_trans)
    show "trace t2 = trace t @ n1 @ n2" using n1 n2 by simp
    show "iteration t2 = iteration t + int (opt_steps (n1 @ n2))" using n1 n2 by simp
    show "epoch t \<le> epoch t2" using s1 s2 by simp
    show "length (log_rows (n1 @ n2)) = opt_steps (n1 @ n2)" using n1 n2 by simp
    show "list_all (\<lambda>(c, v). c = cols \<and> length v = 7) (log_rows (n1 @ n2))" using n1 n2 by simp
    show "list_all (\<lambda>(c, v). v ! 3 = CNan) (log_rows (takeWhile (\<lambda>e. e \<noteq> Validate) (n1 @ n2)))"
      if nan: "vl = CNan"
    proof (cases "Validate \<in> set n1")
      case True
      then have "takeWhile (\<lambda>e. e \<noteq> Validate) (n1 @ n2) = takeWhile (\<lambda>e. e \<noteq> Validate) n1"
        by (auto simp: takeWhile_append_cases)
      then show ?thesis using nan n1(5) by simp
    next
      case False
      then have a: "\<forall>x \<in> set n1. x \<noteq> Validate" by auto
      then have tw: "takeWhile (\<lambda>e. e \<noteq> Validate) n1 = n1" by simp
      have "takeWhile (\<lambda>e. e \<noteq> Validate) (n1 @ n2) = n1 @ takeWhile (\<lambda>e. e \<noteq> Validate) n2"
        using a by (simp add: takeWhile_append_cases)
      moreover have "vl1 = CNan" using False n1(6) nan by simp
      ultimately show ?thesis using nan n1(5) n2(5) tw by simp
    qed
    show "vl2 = None \<or> vl2 = Some vl" if "Validate \<notin> set (n1 @ n2)"
      using that n1(6) n2(6) by auto
  qed
qed

lemma log_rows_takeWhile_Nil:
  assumes "log_rows new = []"
  shows "log_rows (takeWhile P new) = []"
proof -
  have "log_rows (takeWhile P new @ dropWhile P new) = []" using assms by simp
  then show ?thesis unfolding log_rows_append by simp
qed

lemma progress_events:
  assumes "same_setup t t'" "trace t' = trace t @ new" "iteration t' = iteration t"
    "epoch t \<le> epoch t'" "opt_steps new = 0" "log_rows new = []"
    "Validate \<in> set new \<or> vl' = None \<or> vl' = Some vl"
  shows "progress t vl t' vl'"
  by (rule progressI [where new = new]) (use assms in \<open>auto simp: log_rows_takeWhile_Nil\<close>)

lemma update_and_log_trace:
  "trace (fst (update_and_log E b (t, tw, vl))) =
     trace t @
     [OptStep,
      LogRecord cols
        [CInt (iteration t + 1), CInt (epoch t), CFloat (forward_loss E (model t) b), vl,
         CFloat (get_lr E (snd (backward_step E (model t) (opt t) b))),
         CFloat (clock E (ticks t + 2) - clock E (ticks t + 1)),
         CFloat (clock E (ticks t) - tw)],
      LogStep (iteration t + 1)]"
  "snd (snd (update_and_log E b (t, tw, vl))) = vl"
  by (simp_all add: update_and_log_def time_def split_def Let_def step_def numeral_2_eq_2)

lemma update_and_log_progress:
  "progress t vl (fst (update_and_log E b (t, tw, vl))) (Some (snd (snd (update_and_log E b (t, tw, vl)))))"
proof (rule progressI)
  show "same_setup t (fst (update_and_log E b (t, tw, vl)))"
    using update_and_log_frame(1) [where s = "(t, tw, vl)" and E = E and b = b] by simp
  show "trace (fst (update_and_log E b (t, tw, vl))) = trace t @ [OptStep,
      LogRecord cols
        [CInt (iteration t + 1), CInt (epoch t), CFloat (forward_loss E (model t) b), vl,
         CFloat (get_lr E (snd (backward_step E (model t) (opt t) b))),
         CFloat (clock E (ticks t + 2) - clock E (ticks t + 1)),
         CFloat (clock E (ticks t) - tw)],
      LogStep (iteration t + 1)]"
    by (rule update_and_log_trace)
qed (simp_all add: update_and_log_frame update_and_log_trace opt_steps_def)

lemma validate_trace: "trace (snd (validate E t)) = trace t @ [Validate]"
  by (simp add: validate_def Let_def)

lemma periodic_validate_progress:
  "case periodic_validate E (t, tw, vl) of
     Inl (e, t') \<Rightarrow> progress t vl t' None
   | Inr (t', tw', vl') \<Rightarrow> progress t vl t' (Some vl')"
proof (cases "validate_every_iterations t > 0 \<and> iteration t mod validate_every_iterations t = 0")
  case False
  then show ?thesis by (auto simp: periodic_validate_def progress_refl)
next
  case True
  obtain r t1 where v: "validate E t = (r, t1)" by (cases "validate E t")
  have f: "same_setup t t1" "iteration t1 = iteration t" "epoch t1 = epoch t"
          "trace t1 = trace t @ [Validate]"
    using validate_frame [where E = E and t = t] validate_trace [where E = E and t = t] v by simp_all
  show ?thesis
  proof (cases r)
    case (Inl e)
    have "progress t vl t1 None"
      by (rule progress_events [where new = "[Validate]"]) (use f in \<open>simp_all add: opt_steps_def\<close>)
    with True v Inl show ?thesis by (simp add: periodic_validate_def)
  next
    case (Inr x)
    show ?thesis
    proof (cases "scheduler t1")
      case None
      have "progress t vl t1 (Some (CFloat x))"
        by (rule progress_events [where new = "[Validate]"]) (use f in \<open>simp_all add: opt_steps_def\<close>)
      with True v Inr None show ?thesis by (simp add: periodic_validate_def)
    next
      case (Some sch)
      obtain sch' oo where st: "scheduler_step E sch x (opt t1) = (sch', oo)"
        by (cases "scheduler_step E sch x (opt t1)")
      let ?t2 = "t1\<lparr>scheduler := Some sch', opt := oo, trace := trace t1 @ [SchedulerStep x]\<rparr>"
      have "progress t vl ?t2 (Some (CFloat x))"
        by (rule progress_events [where new = "[Validate, SchedulerStep x]"])
           (use f in \<open>simp_all add: opt_steps_def same_setup_def\<close>)
      with True v Inr Some st show ?thesis by (simp add: periodic_validate_def)
    qed
  qed
qed

lemma save_trace:
  assumes "save E t c = Inr t'"
  shows "\<exists>f x. trace t' = trace t @ [SaveState f x]"
  using assms by (auto simp: save_def and_then_def split: sum.splits option.splits if_splits)

lemma save_progress:
  assumes "save E t c = Inr t'"
  shows "progress t vl t' (Some vl)"
proof -
  from save_trace [OF assms] obtain f x where tr: "trace t' = trace t @ [SaveState f x]" by blast
  show ?thesis
    by (rule progress_events [where new = "[SaveState f x]"])
       (use tr save_frame [OF assms] in \<open>simp_all add: opt_steps_def\<close>)
qed

lemma periodic_save_progress:
  "case periodic_save E (t, tw, vl) of
     Inl (e, t') \<Rightarrow> progress t vl t' None
   | Inr (t', tw', vl') \<Rightarrow> progress t vl t' (Some vl')"
  by (auto simp: periodic_save_def progress_refl save_progress
           intro: progress_weaken [OF progress_refl] split: sum.splits)

lemma train_batch_progress:
  "case train_batch E b (t, tw, vl) of
     Inl (e, t') \<Rightarrow> progress t vl t' None
   | Inr (t', tw', vl') \<Rightarrow> progress t vl t' (Some vl')"
proof -
  obtain t1 tw1 vl1 where u: "update_and_log E b (t, tw, vl) = (t1, tw1, vl1)"
    by (cases "update_and_log E b (t, tw, vl)")
  have p1: "progress t vl t1 (Some vl1)"
    using update_and_log_progress [where E = E and t = t and tw = tw and vl = vl and b = b] u by simp
  show ?thesis
  proof (cases "periodic_validate E (t1, tw1, vl1)")
    case (Inl r)
    then obtain e t2 where r: "r = (e, t2)" by (cases r)
    from periodic_validate_progress [where E = E and t = t1 and tw = tw1 and vl = vl1] Inl r
    have "progress t1 vl1 t2 None" by simp
    from progress_trans [OF p1 this] show ?thesis
      using u Inl r by (simp add: train_batch_def)
  next
    case (Inr s2)
    then obtain t2 tw2 vl2 where s2: "s2 = (t2, tw2, vl2)" by (cases s2)
    from periodic_validate_progress [where E = E and t = t1 and tw = tw1 and vl = vl1] Inr s2
    have "progress t1 vl1 t2 (Some vl2)" by simp
    from progress_trans [OF p1 this] have p2: "progress t vl t2 (Some vl2)" .
    show ?thesis
    proof (cases "periodic_save E (t2, tw2, vl2)")
      case (Inl r)
      then obtain e t3 where r: "r = (e, t3)" by (cases r)
      from periodic_save_progress [where E = E and t = t2 and tw = tw2 and vl = vl2] Inl r
      have "progress t2 vl2 t3 None" by simp
      from progress_trans [OF p2 this] show ?thesis
        using u \<open>periodic_validate E (t1, tw1, vl1) = Inr s2\<close> s2 Inl r
        by (simp add: train_batch_def)
    next
      case (Inr s3)
      then obtain t3 tw3 vl3 where s3: "s3 = (t3, tw3, vl3)" by (cases s3)
      from periodic_save_progress [where E = E and t = t2 and tw = tw2 and vl = vl2] Inr s3
      have "progress t2 vl2 t3 (Some vl3)" by simp
      from progress_trans [OF p2 this] show ?thesis
        using u \<open>periodic_validate E (t1, tw1, vl1) = Inr s2\<close> s2 Inr s3
        by (simp add: train_batch_def)
    qed
  qed
qed

lemma periodic_validate_counters:
  "case periodic_validate E (t, tw, vl) of
     Inl (e, t') \<Rightarrow> iteration t' = iteration t \<and> epoch t' = epoch t
   | Inr (t', tw', vl') \<Rightarrow> iteration t' = iteration t \<and> epoch t' = epoch t"
proof (cases "periodic_validate E (t, tw, vl)")
  case (Inl r)
  then have "snd r = snd (validate E t)"
    by (auto simp: periodic_validate_def split_def Let_def
             split: if_splits sum.splits prod.splits option.splits)
  with Inl validate_frame [where E = E and t = t] show ?thesis
    by (cases r) simp
next
  case (Inr s')
  from periodic_validate_frame [OF Inr] Inr show ?thesis
    by (cases s') simp
qed

lemma periodic_save_counters:
  "case periodic_save E (t, tw, vl) of
     Inl (e, t') \<Rightarrow> iteration t' = iteration t \<and> epoch t' = epoch t
   | Inr (t', tw', vl') \<Rightarrow> iteration t' = iteration t \<and> epoch t' = epoch t"
proof (cases "periodic_save E (t, tw, vl)")
  case (Inl r)
  then have "snd r = t"
    by (auto simp: periodic_save_def split: if_splits sum.splits)
  with Inl show ?thesis by (cases r) simp
next
  case (Inr s')
  from periodic_save_frame [OF Inr] Inr show ?thesis
    by (cases s') simp
qed

lemma train_batch_counters:
  "case train_batch E b (t, tw, vl) of
     Inl (e, t') \<Rightarrow> iteration t' = iteration t + 1 \<and> epoch t' = epoch t
   | Inr (t', tw', vl') \<Rightarrow> iteration t' = iteration t + 1 \<and> epoch t' = epoch t"
proof -
  obtain t1 tw1 vl1 where u: "update_and_log E b (t, tw, vl) = (t1, tw1, vl1)"
    by (cases "update_and_log E b (t, tw, vl)")
  have c1: "iteration t1 = iteration t + 1" "epoch t1 = epoch t"
    using update_and_log_frame(2,3) [where E = E and b = b and s = "(t, tw, vl)"] u by simp_all
  note pv = periodic_validate_counters [where E = E and t = t1 and tw = tw1 and vl = vl1]
  show ?thesis
  proof (cases "periodic_validate E (t1, tw1, vl1)")
    case (Inl r)
    with pv c1 u show ?thesis by (cases r) (simp add: train_batch_def)
  next
    case (Inr s2)
    obtain t2 tw2 vl2 where s2: "s2 = (t2, tw2, vl2)" by (cases s2)
    from pv Inr s2 c1 have c2: "iteration t2 = iteration t + 1" "epoch t2 = epoch t" by simp_all
    note ps = periodic_save_counters [where E = E and t = t2 and tw = tw2 and vl = vl2]
    show ?thesis
    proof (cases "periodic_save E (t2, tw2, vl2)")
      case (Inl r)
      with ps c2 u \<open>periodic_validate E (t1, tw1, vl1) = Inr s2\<close> s2 show ?thesis
        by (cases r) (simp add: train_batch_def)
    next
      case (Inr s3)
      with ps c2 u \<open>periodic_validate E (t1, tw1, vl1) = Inr s2\<close> s2 show ?thesis
        by (cases s3) (simp add: train_batch_def)
    qed
  qed
qed

lemma same_setup_limits:
  assumes "same_setup t t'"
  shows "iteration_max t' = iteration_max t" "epoch_max t' = epoch_max t"
  using assms by (simp_all add: same_setup_def)

lemma progress_same_setup: "progress t vl t' vl' \<Longrightarrow> same_setup t t'"
  by (simp add: progress_def)

lemma batch_loop_progress:
  assumes "iteration t < iteration_max t"
  shows "case batch_loop E bs (t, tw, vl) of
           Inl (e, t') \<Rightarrow>
             progress t vl t' None \<and> epoch t' = epoch t \<and> iteration t' \<le> iteration_max t
         | Inr (stop, t', tw', vl') \<Rightarrow>
             progress t vl t' (Some vl') \<and> epoch t' = epoch t \<and>
             (if stop then iteration t' = iteration_max t
              else iteration t' = iteration t + int (length bs) \<and>
                   iteration t' < iteration_max t)"
  using assms
proof (induction bs arbitrary: t tw vl)
  case Nil
  then show ?case by (simp add: progress_refl)
next
  case (Cons b bs)
  note lt = Cons.prems
  note p = train_batch_progress [where E = E and b = b and t = t and tw = tw and vl = vl]
  note c = train_batch_counters [where E = E and b = b and t = t and tw = tw and vl = vl]
  show ?case
  proof (cases "train_batch E b (t, tw, vl)")
    case (Inl r)
    obtain e t1 where r: "r = (e, t1)" by (cases r)
    from p c Inl r lt show ?thesis by simp
  next
    case (Inr s1)
    obtain t1 tw1 vl1 where s1: "s1 = (t1, tw1, vl1)" by (cases s1)
    from p c Inr s1 have p1: "progress t vl t1 (Some vl1)"
      and c1: "iteration t1 = iteration t + 1" "epoch t1 = epoch t" by simp_all
    note lim = same_setup_limits [OF progress_same_setup [OF p1]]
    show ?thesis
    proof (cases "iteration_max t1 \<le> iteration t1")
      case True
      with Inr s1 p1 c1 lim lt show ?thesis by simp
    next
      case False
      then have "iteration t1 < iteration_max t1" by simp
      note ih = Cons.IH [OF this, where tw = tw1 and vl = vl1]
      show ?thesis
      proof (cases "batch_loop E bs (t1, tw1, vl1)")
        case (Inl r)
        obtain e t2 where r: "r = (e, t2)" by (cases r)
        from ih Inl r have "progress t1 vl1 t2 None" "epoch t2 = epoch t1"
          "iteration t2 \<le> iteration_max t1" by simp_all
        with progress_trans [OF p1] c1 lim Inr s1 False Inl r
        show ?thesis by simp
      next
        case (Inr x)
        obtain stop t2 tw2 vl2 where x: "x = (stop, t2, tw2, vl2)" by (cases x)
        from ih Inr x have "progress t1 vl1 t2 (Some vl2)" "epoch t2 = epoch t1"
          "stop \<longrightarrow> iteration t2 = iteration_max t1"
          "\<not> stop \<longrightarrow> iteration t2 = iteration t1 + int (length bs) \<and>
                iteration t2 < iteration_max t1" by (simp_all split: if_splits)
        with progress_trans [OF p1] c1 lim \<open>train_batch E b (t, tw, vl) = Inr s1\<close> s1 False Inr x
        show ?thesis by auto
      qed
    qed
  qed
qed

lemma end_of_epoch_progress:
  "case end_of_epoch E t of
     Inl (e, t') \<Rightarrow> progress t vl t' None \<and> epoch t' = epoch t + 1 \<and> iteration t' = iteration t
   | Inr t' \<Rightarrow> progress t vl t' (Some vl) \<and> epoch t' = epoch t + 1 \<and> iteration t' = iteration t"
proof -
  let ?t1 = "t\<lparr>epoch := epoch t + 1\<rparr>"
  have p1: "progress t vl ?t1 (Some vl)"
    by (rule progress_silent) (simp_all add: same_setup_def)
  show ?thesis
  proof (cases "end_of_epoch E t")
    case (Inl r)
    then have "snd r = ?t1"
      by (auto simp: end_of_epoch_def Let_def split: if_splits sum.splits)
    with Inl progress_weaken [OF p1] show ?thesis by (cases r) simp
  next
    case (Inr t')
    then consider "t' = ?t1" | c where "save E ?t1 c = Inr t'"
      by (auto simp: end_of_epoch_def Let_def split: if_splits sum.splits)
    then show ?thesis
    proof cases
      case 1
      with Inr p1 show ?thesis by simp
    next
      case 2
      from progress_trans [OF p1 save_progress [OF 2]] save_frame [OF 2] Inr
      show ?thesis by simp
    qed
  qed
qed

lemma epoch_loop_stopped:
  assumes "\<not> (iteration t < iteration_max t \<and> epoch t < epoch_max t)"
  shows "epoch_loop E (t, tw, vl) = Inr (t, tw, vl)"
  by (subst epoch_loop.simps) (simp only: assms simp_thms if_False)

lemma epoch_loop_running:
  assumes "iteration t < iteration_max t \<and> epoch t < epoch_max t"
  shows "epoch_loop E (t, tw, vl) =
     (case batch_loop E (batches (dataloader_train t) (generator t))
             (t\<lparr>generator := next_gen (dataloader_train t) (generator t)\<rparr>, tw, vl) of
        Inl r \<Rightarrow> Inl r
      | Inr (stop_training, s') \<Rightarrow>
          if stop_training then Inr s'
          else
            (case end_of_epoch E (fst s') of
               Inl r \<Rightarrow> Inl r
             | Inr t' \<Rightarrow> epoch_loop E (t', snd s')))"
  by (subst epoch_loop.simps) (simp only: assms simp_thms if_True)

lemma epoch_loop_progress_aux:
  "case epoch_loop E s of
     Inl (e, t') \<Rightarrow> progress (fst s) (snd (snd s)) t' None \<and> within_limits (fst s) t'
   | Inr (t', tw', vl') \<Rightarrow>
       progress (fst s) (snd (snd s)) t' (Some vl') \<and> within_limits (fst s) t' \<and>
       (iteration_max (fst s) \<le> iteration t' \<or> epoch_max (fst s) \<le> epoch t')"
proof (induction E s rule: epoch_loop.induct)
  case (1 E t tw vl)
  show ?case
  proof (cases "iteration t < iteration_max t \<and> epoch t < epoch_max t")
    case False
    from epoch_loop_stopped [OF False] False show ?thesis
      by (auto simp: progress_refl within_limits_def)
  next
    case True
    let ?t0 = "t\<lparr>generator := next_gen (dataloader_train t) (generator t)\<rparr>"
    let ?bs = "batches (dataloader_train t) (generator t)"
    note unfold = epoch_loop_running [OF True, where E = E and tw = tw and vl = vl]
    have p0: "progress t vl ?t0 (Some vl)"
      by (rule progress_silent) (simp_all add: same_setup_def)
    have "iteration ?t0 < iteration_max ?t0" using True by simp
    note bl = batch_loop_progress [OF this, where E = E and tw = tw and vl = vl and bs = ?bs]
    show ?thesis
    proof (cases "batch_loop E ?bs (?t0, tw, vl)")
      case (Inl r)
      obtain e t1 where r: "r = (e, t1)" by (cases r)
      from bl Inl r have "progress ?t0 vl t1 None" "epoch t1 = epoch t"
        "iteration t1 \<le> iteration_max t" by simp_all
      moreover have "epoch_loop E (t, tw, vl) = Inl (e, t1)"
        unfolding unfold using Inl r by simp
      ultimately show ?thesis
        using progress_trans [OF p0] by (simp add: within_limits_def)
    next
      case (Inr x)
      obtain stop t1 tw1 vl1 where x: "x = (stop, t1, tw1, vl1)" by (cases x)
      from bl Inr x have p1': "progress ?t0 vl t1 (Some vl1)" and e1: "epoch t1 = epoch t"
        and i1: "stop \<longrightarrow> iteration t1 = iteration_max t"
                "\<not> stop \<longrightarrow> iteration t1 = iteration t + int (length ?bs) \<and>
                      iteration t1 < iteration_max t" by (simp_all split: if_splits)
      from progress_trans [OF p0 p1'] have p1: "progress t vl t1 (Some vl1)" .
      note lim1 = same_setup_limits [OF progress_same_setup [OF p1]]
      show ?thesis
      proof (cases stop)
        case True
        have "epoch_loop E (t, tw, vl) = Inr (t1, tw1, vl1)"
          unfolding unfold using Inr x True by simp
        with p1 e1 i1 True show ?thesis by (simp add: within_limits_def)
      next
        case False
        with i1 have it1: "iteration t1 < iteration_max t" by simp
        note ee = end_of_epoch_progress [where E = E and t = t1 and vl = vl1]
        show ?thesis
        proof (cases "end_of_epoch E t1")
          case (Inl r)
          obtain e t2 where r: "r = (e, t2)" by (cases r)
          from ee Inl r have "progress t1 vl1 t2 None" "epoch t2 = epoch t1 + 1"
            "iteration t2 = iteration t1" by simp_all
          moreover have "epoch_loop E (t, tw, vl) = Inl (e, t2)"
            unfolding unfold using \<open>batch_loop E ?bs (?t0, tw, vl) = Inr x\<close> x False Inl r by simp
          ultimately show ?thesis
            using progress_trans [OF p1] e1 it1 \<open>iteration t < iteration_max t \<and> epoch t < epoch_max t\<close>
            by (simp add: within_limits_def)
        next
          case (Inr t2)
          from ee Inr have p2': "progress t1 vl1 t2 (Some vl1)" and e2: "epoch t2 = epoch t1 + 1"
            and i2: "iteration t2 = iteration t1" by simp_all
          from progress_trans [OF p1 p2'] have p2: "progress t vl t2 (Some vl1)" .
          note lim2 = same_setup_limits [OF progress_same_setup [OF p2]]
          have rec: "epoch_loop E (t, tw, vl) = epoch_loop E (t2, tw1, vl1)"
            unfolding unfold using \<open>batch_loop E ?bs (?t0, tw, vl) = Inr x\<close> x False Inr by simp
          have ih: "case epoch_loop E (t2, tw1, vl1) of
              Inl (e, t') \<Rightarrow> progress t2 vl1 t' None \<and> within_limits t2 t'
            | Inr (t', tw', vl') \<Rightarrow>
                progress t2 vl1 t' (Some vl') \<and> within_limits t2 t' \<and>
                (iteration_max t2 \<le> iteration t' \<or> epoch_max t2 \<le> epoch t')"
            using "1.IH" [OF True \<open>batch_loop E ?bs (?t0, tw, vl) = Inr x\<close> _ False, of "(t1, tw1, vl1)" t2]
              x Inr by (simp cong: sum.case_cong prod.case_cong)
          have wl: "within_limits t t'" if "within_limits t2 t'" for t'
            using that lim2 e1 e2 i2 it1 True by (auto simp: within_limits_def)
          show ?thesis
          proof (cases "epoch_loop E (t2, tw1, vl1)")
            case (Inl r)
            obtain e t3 where r: "r = (e, t3)" by (cases r)
            from ih Inl r have "progress t2 vl1 t3 None" "within_limits t2 t3" by simp_all
            with progress_trans [OF p2] wl rec Inl r show ?thesis by simp
          next
            case (Inr y)
            obtain t3 tw3 vl3 where y: "y = (t3, tw3, vl3)" by (cases y)
            from ih Inr y have "progress t2 vl1 t3 (Some vl3)" "within_limits t2 t3"
              "iteration_max t2 \<le> iteration t3 \<or> epoch_max t2 \<le> epoch t3" by simp_all
            with progress_trans [OF p2] wl rec Inr y lim2 show ?thesis by simp
          qed
        qed
      qed
    qed
  qed
qed

lemma epoch_loop_progress:
  "case epoch_loop E (t, tw, vl) of
     Inl (e, t') \<Rightarrow> progress t vl t' None \<and> within_limits t t'
   | Inr (t', tw', vl') \<Rightarrow>
       progress t vl t' (Some vl') \<and> within_limits t t' \<and>
       (iteration_max t \<le> iteration t' \<or> epoch_max t \<le> epoch t')"
  using epoch_loop_progress_aux [where E = E and s = "(t, tw, vl)"]
  by (simp cong: sum.case_cong prod.case_cong)

lemma train_progress:
  "case train E t of
     Inl (e, t') \<Rightarrow> progress t CNan t' None \<and> within_limits t t'
   | Inr t' \<Rightarrow>
       (\<exists>t1. progress t CNan t1 None \<and> within_limits t t1 \<and>
             (iteration_max t \<le> iteration t1 \<or> epoch_max t \<le> epoch t1) \<and>
             t' = t1\<lparr>trace := trace t1 @ [LogWrite, LogClose]\<rparr>)"
proof -
  let ?t0 = "t\<lparr>ticks := ticks t + 1\<rparr>"
  let ?tw = "clock E (ticks t)"
  have tr: "train E t =
      (case epoch_loop E (?t0, ?tw, CNan) of
         Inl r \<Rightarrow> Inl r
       | Inr (t', _) \<Rightarrow> Inr (t'\<lparr>trace := trace t' @ [LogWrite, LogClose]\<rparr>))"
    by (simp add: train_def time_def)
  have p0: "progress t CNan ?t0 (Some CNan)"
    by (rule progress_silent) (simp_all add: same_setup_def)
  have wl: "within_limits t t'" if "within_limits ?t0 t'" for t'
    using that by (simp add: within_limits_def)
  note el = epoch_loop_progress [where E = E and t = ?t0 and tw = ?tw and vl = CNan]
  show ?thesis
  proof (cases "epoch_loop E (?t0, ?tw, CNan)")
    case (Inl r)
    obtain e t1 where r: "r = (e, t1)" by (cases r)
    from el Inl r have "progress ?t0 CNan t1 None" "within_limits ?t0 t1" by simp_all
    with progress_trans [OF p0] wl tr Inl r show ?thesis by simp
  next
    case (Inr y)
    obtain t1 tw1 vl1 where y: "y = (t1, tw1, vl1)" by (cases y)
    from el Inr y have "progress ?t0 CNan t1 (Some vl1)" "within_limits ?t0 t1"
      "iteration_max t \<le> iteration t1 \<or> epoch_max t \<le> epoch t1" by simp_all
    with progress_trans [OF p0] wl have "progress t CNan t1 None" "within_limits t t1"
      "iteration_max t \<le> iteration t1 \<or> epoch_max t \<le> epoch t1"
      by (auto intro: progress_weaken)
    with tr Inr y show ?thesis by auto
  qed
qed

lemma train_final:
  "\<exists>t1 tail. progress t CNan t1 None \<and> within_limits t t1 \<and>
     (\<not> isl (train E t) \<longrightarrow> iteration_max t \<le> iteration t1 \<or> epoch_max t \<le> epoch t1) \<and>
     (tail = [] \<or> tail = [LogWrite, LogClose]) \<and>
     trace (final_trainer (train E t)) = trace t1 @ tail \<and>
     iteration (final_trainer (train E t)) = iteration t1 \<and>
     epoch (final_trainer (train E t)) = epoch t1"
proof (cases "train E t")
  case (Inl r)
  obtain e t1 where r: "r = (e, t1)" by (cases r)
  from train_progress [where E = E and t = t] Inl r have "progress t CNan t1 None" "within_limits t t1"
    by simp_all
  with Inl r show ?thesis
    by (intro exI [of _ t1] exI [of _ "[]"]) (simp add: final_trainer_def)
next
  case (Inr t')
  with train_progress [where E = E and t = t] obtain t1 where
    "progress t CNan t1 None" "within_limits t t1"
    "iteration_max t \<le> iteration t1 \<or> epoch_max t \<le> epoch t1"
    "t' = t1\<lparr>trace := trace t1 @ [LogWrite, LogClose]\<rparr>" by auto
  with Inr show ?thesis
    by (intro exI [of _ t1] exI [of _ "[LogWrite, LogClose]"]) (simp add: final_trainer_def)
qed

section \<open>A small run\<close>

lemma small_run:
  "iteration (final_trainer (train (toy 6) small_trainer)) = 3 \<and>
   epoch (final_trainer (train (toy 6) small_trainer)) = 1 \<and>
   map fst (checkpoints (trace (final_trainer (train (toy 6) small_trainer)))) =
     [''logs/iteration-000002-epoch-0000.ckpt'', ''logs/iteration-000002-epoch-0001.ckpt''] \<and>
   map (\<lambda>(c, v). v ! 3) (log_rows (trace (final_trainer (train (toy 6) small_trainer)))) =
     [CNan, CNan, CFloat 2]"
  by code_simp

section \<open>C2: the limits of \<open>train\<close>\<close>

text \<open>
  Claim C2. Let the limits \<open>iteration_max\<close> and \<open>epoch_max\<close> be positive and the counters
  of the trainer not negative, as they are after construction (\<open>SOptimizer_init_fresh\<close>). A call of \<open>train\<close>, whether it returns or raises, makes
  as many optimizer updates as \<open>iteration\<close> grows, and at most \<open>iteration_max\<close> of them;
  it completes as many passes over the training loader as \<open>epoch\<close> grows, and at most
  \<open>epoch_max\<close> of them. When it returns, \<open>iteration \<ge> iteration_max\<close> or
  \<open>epoch \<ge> epoch_max\<close> holds. The test is made at the top of every epoch (in a state
  where it holds, the epoch loop returns at once) and after every batch (in an epoch
  that has begun, the batch loop is left with \<open>stop_training\<close> set exactly when
  \<open>iteration \<ge> iteration_max\<close> or \<open>epoch \<ge> epoch_max\<close> holds after the batch; line 199
  tests \<open>iteration\<close> only, and \<open>epoch\<close> does not change inside the batch loop).
\<close>

theorem train_respects_limits:
  assumes "0 < iteration_max t" "0 < epoch_max t" "0 \<le> iteration t" "0 \<le> epoch t"
  shows "(\<exists>new. trace (final_trainer (train E t)) = trace t @ new \<and>
            int (opt_steps new) = iteration (final_trainer (train E t)) - iteration t \<and>
            int (opt_steps new) \<le> iteration_max t) \<and>
         0 \<le> epoch (final_trainer (train E t)) - epoch t \<and>
         epoch (final_trainer (train E t)) - epoch t \<le> epoch_max t \<and>
         (\<not> isl (train E t) \<longrightarrow>
            iteration_max t \<le> iteration (final_trainer (train E t)) \<or>
            epoch_max t \<le> epoch (final_trainer (train E t))) \<and>
         (\<forall>tw vl. \<not> (iteration t < iteration_max t \<and> epoch t < epoch_max t) \<longrightarrow>
            epoch_loop E (t, tw, vl) = Inr (t, tw, vl)) \<and>
         (\<forall>b bs tw vl. epoch t < epoch_max t \<longrightarrow>
            batch_loop E (b # bs) (t, tw, vl) =
              (case train_batch E b (t, tw, vl) of
                 Inl r \<Rightarrow> Inl r
               | Inr s' \<Rightarrow>
                   if iteration_max (fst s') \<le> iteration (fst s') \<or>
                      epoch_max (fst s') \<le> epoch (fst s')
                   then Inr (True, s') else batch_loop E bs s'))"
proof -
  from train_final [where E = E and t = t] obtain t1 tail where
    p: "progress t CNan t1 None" and w: "within_limits t t1"
    and st: "\<not> isl (train E t) \<longrightarrow> iteration_max t \<le> iteration t1 \<or> epoch_max t \<le> epoch t1"
    and tl: "tail = [] \<or> tail = [LogWrite, LogClose]"
    and f: "trace (final_trainer (train E t)) = trace t1 @ tail"
       "iteration (final_trainer (train E t)) = iteration t1"
       "epoch (final_trainer (train E t)) = epoch t1" by blast
  from p obtain new where n: "trace t1 = trace t @ new"
    "int (opt_steps new) = iteration t1 - iteration t" "epoch t \<le> epoch t1"
    unfolding progress_def by auto
  have ot: "opt_steps tail = 0" using tl by (auto simp: opt_steps_def)
  have 1: "\<exists>new. trace (final_trainer (train E t)) = trace t @ new \<and>
            int (opt_steps new) = iteration (final_trainer (train E t)) - iteration t \<and>
            int (opt_steps new) \<le> iteration_max t"
    using n f ot w assms by (intro exI [of _ "new @ tail"]) (auto simp: within_limits_def)
  have 2: "0 \<le> epoch (final_trainer (train E t)) - epoch t"
    "epoch (final_trainer (train E t)) - epoch t \<le> epoch_max t"
    using n f w assms by (auto simp: within_limits_def)
  have 3: "\<not> isl (train E t) \<longrightarrow>
            iteration_max t \<le> iteration (final_trainer (train E t)) \<or>
            epoch_max t \<le> epoch (final_trainer (train E t))"
    using st f by simp
  have 4: "\<forall>tw vl. \<not> (iteration t < iteration_max t \<and> epoch t < epoch_max t) \<longrightarrow>
            epoch_loop E (t, tw, vl) = Inr (t, tw, vl)"
    using epoch_loop_stopped by blast
  have 5: "batch_loop E (b # bs) (t, tw, vl) =
              (case train_batch E b (t, tw, vl) of
                 Inl r \<Rightarrow> Inl r
               | Inr s' \<Rightarrow>
                   if iteration_max (fst s') \<le> iteration (fst s') \<or>
                      epoch_max (fst s') \<le> epoch (fst s')
                   then Inr (True, s') else batch_loop E bs s')"
    if "epoch t < epoch_max t" for b bs tw vl
  proof (cases "train_batch E b (t, tw, vl)")
    case (Inl r)
    then show ?thesis by simp
  next
    case (Inr s')
    from train_batch_frame [OF Inr] that
    have "\<not> epoch_max (fst s') \<le> epoch (fst s')" by (simp add: same_setup_def)
    with Inr show ?thesis by simp
  qed
  show ?thesis using 1 2 3 4 5 by blast
qed

theorem train_respects_limits_witness:
  "0 < iteration_max small_trainer \<and> 0 < epoch_max small_trainer \<and>
   0 \<le> iteration small_trainer \<and> 0 \<le> epoch small_trainer \<and>
   opt_steps (trace (final_trainer (train (toy 6) small_trainer))) \<le> 3 \<and>
   epoch (final_trainer (train (toy 6) small_trainer)) \<le> 5"
proof -
  have h: "0 < iteration_max small_trainer" "0 < epoch_max small_trainer"
    "0 \<le> iteration small_trainer" "0 \<le> epoch small_trainer"
    by (simp_all add: small_trainer_def)
  have v: "iteration_max small_trainer = 3" "epoch_max small_trainer = 5"
    "epoch small_trainer = 0" "trace small_trainer = []"
    by (simp_all add: small_trainer_def)
  from train_respects_limits [OF h, of "toy 6"] show ?thesis
    using h unfolding v by auto
qed

section \<open>C5: the metric log\<close>

text \<open>
  Claim C5. A call of \<open>train\<close>, whether it returns or raises, appends one row to the
  metric log for every batch it trains on: the number of rows is the number of
  optimizer updates and the growth of \<open>iteration\<close>. Every row has the seven columns
  \<open>iter\<close>, \<open>epoch\<close>, \<open>loss\<close>, \<open>val_loss\<close>, \<open>lr\<close>, \<open>ttrain\<close>, \<open>twait\<close> and seven values, and
  the value of \<open>val_loss\<close> (the fourth) is the not-a-number sentinel in every row
  recorded before the first call of \<open>validate\<close>.
\<close>

theorem metric_log_rows:
  "\<exists>new. trace (final_trainer (train E t)) = trace t @ new \<and>
     int (length (log_rows new)) = iteration (final_trainer (train E t)) - iteration t \<and>
     length (log_rows new) = opt_steps new \<and>
     list_all (\<lambda>(c, v). c = [''iter'', ''epoch'', ''loss'', ''val_loss'', ''lr'', ''ttrain'', ''twait'']
                        \<and> length v = 7) (log_rows new) \<and>
     list_all (\<lambda>(c, v). v ! 3 = CNan) (log_rows (takeWhile (\<lambda>e. e \<noteq> Validate) new))"
proof -
  from train_final [where E = E and t = t] obtain t1 tail where
    p: "progress t CNan t1 None"
    and tl: "tail = [] \<or> tail = [LogWrite, LogClose]"
    and f: "trace (final_trainer (train E t)) = trace t1 @ tail"
       "iteration (final_trainer (train E t)) = iteration t1" by blast
  from p obtain new where n: "trace t1 = trace t @ new"
    "int (opt_steps new) = iteration t1 - iteration t"
    "length (log_rows new) = opt_steps new"
    "list_all (\<lambda>(c, v). c = cols \<and> length v = 7) (log_rows new)"
    "list_all (\<lambda>(c, v). v ! 3 = CNan) (log_rows (takeWhile (\<lambda>e. e \<noteq> Validate) new))"
    unfolding progress_def by auto
  have t0: "opt_steps tail = 0" "log_rows tail = []" using tl by (auto simp: opt_steps_def)
  have tw: "log_rows (takeWhile (\<lambda>e. e \<noteq> Validate) (new @ tail))
            = log_rows (takeWhile (\<lambda>e. e \<noteq> Validate) new)"
  proof (cases "\<forall>x \<in> set new. x \<noteq> Validate")
    case True
    then have a: "takeWhile (\<lambda>e. e \<noteq> Validate) new = new" by simp
    have "takeWhile (\<lambda>e. e \<noteq> Validate) (new @ tail)
          = new @ takeWhile (\<lambda>e. e \<noteq> Validate) tail"
      using True by (simp add: takeWhile_append_cases)
    then show ?thesis
      unfolding a using t0(2) by (simp add: log_rows_takeWhile_Nil)
  next
    case False
    then show ?thesis by (auto simp: takeWhile_append_cases)
  qed
  show ?thesis
    using n f t0 tw by (intro exI [of _ "new @ tail"]) (simp add: cols_def)
qed

theorem metric_log_rows_witness:
  "int (length (log_rows (trace (final_trainer (train (toy 6) small_trainer))))) =
     iteration (final_trainer (train (toy 6) small_trainer)) \<and>
   list_all (\<lambda>(c, v). v ! 3 = CNan)
     (log_rows (takeWhile (\<lambda>e. e \<noteq> Validate)
        (trace (final_trainer (train (toy 6) small_trainer)))))"
proof -
  have v: "iteration small_trainer = 0" "trace small_trainer = []"
    by (simp_all add: small_trainer_def)
  from metric_log_rows [of "toy 6" small_trainer] show ?thesis
    unfolding v by auto
qed

section \<open>C3: ten iterations, a validation every ten\<close>





















end
